theory Spec2Isabelle
  imports Main
begin

section \<open>The attendance EKYC widget\<close>

text \<open>
  The script wires two click handlers to a server-rendered page: one on the
  test-connection button, and a delegated one for the record and verify buttons of
  the participant rows. The handlers are asynchronous: each one
  runs up to its next \<^verbatim>\<open>await\<close> (or \<^verbatim>\<open>setTimeout\<close>) and is resumed by
  the event loop. The model below splits every handler at these points and lets an
  explicit step function play the event loop.

  Conventions of the model.
  \<^item> Strings are lists of 8-bit code units (Latin-1); \<^verbatim>\<open>trim\<close>,
    \<^verbatim>\<open>toLowerCase\<close> and the regular expression class \<^verbatim>\<open>\s\<close> are modelled
    on that range.
  \<^item> An element that a handler looks up and may not find is an \<open>option\<close>:
    \<open>None\<close> is the \<^verbatim>\<open>null\<close> of \<^verbatim>\<open>querySelector\<close> or
    \<^verbatim>\<open>getElementById\<close>. A JavaScript value that may be \<^verbatim>\<open>undefined\<close> is an
    \<open>option\<close> as well.
  \<^item> A participant row owns at most one record button and at most one verify button,
    and they are different elements; rows are not nested. The structure of the
    document does not change while the widget runs: only the attributes and texts
    the handlers write do.
  \<^item> \<^verbatim>\<open>dbg\<close> only writes to the console and swallows its own failures; console
    output is not part of the state.
\<close>

subsection \<open>JavaScript values of a decoded response\<close>

text \<open>
  The server answers with a JSON document. After \<^verbatim>\<open>resp.json()\<close> the handler
  holds a value \<^verbatim>\<open>data\<close>: an object, an array or a primitive. The fields the
  handlers read (\<^verbatim>\<open>success\<close>, \<^verbatim>\<open>status\<close>, \<^verbatim>\<open>status_display\<close>) are
  modelled with primitive values: \<^verbatim>\<open>null\<close>, a boolean or a string. JSON numbers are
  64-bit floating point values and are left out, as are arrays and objects as field values.
\<close>

datatype jsprim = JNull | JBool bool | JStr string

datatype json = Prim jsprim | Arr | Obj "(string \<times> jsprim) list"

text \<open>What came back from \<^verbatim>\<open>await fetch(...)\<close> followed by \<^verbatim>\<open>await resp.json()\<close>:
  either of the two promises rejected (the \<^verbatim>\<open>catch\<close> clause runs), or a value
  was decoded.\<close>

datatype outcome = Threw | Parsed json

text \<open>Truthiness of a value that may be \<^verbatim>\<open>undefined\<close>.\<close>

fun truthy :: "jsprim option \<Rightarrow> bool" where
  "truthy None = False"
| "truthy (Some JNull) = False"
| "truthy (Some (JBool b)) = b"
| "truthy (Some (JStr s)) = (s \<noteq> [])"

text \<open>Truthiness of the decoded value itself: arrays and objects are truthy.\<close>

fun truthy_data :: "json \<Rightarrow> bool" where
  "truthy_data (Prim p) = truthy (Some p)"
| "truthy_data Arr = True"
| "truthy_data (Obj kvs) = True"

text \<open>
  A property read \<^verbatim>\<open>data.k\<close> on a truthy value. \<^verbatim>\<open>JSON.parse\<close> keeps the last
  of several members with one name. Truthy primitives and arrays have no property
  of the names read here.
\<close>

fun get_field :: "json \<Rightarrow> string \<Rightarrow> jsprim option" where
  "get_field (Obj kvs) k = map_of (rev kvs) k"
| "get_field (Prim p) k = None"
| "get_field Arr k = None"

text \<open>\<^verbatim>\<open>a || b\<close>\<close>

definition js_or :: "jsprim option \<Rightarrow> jsprim option \<Rightarrow> jsprim option" where
  "js_or a b = (if truthy a then a else b)"

text \<open>The condition \<^verbatim>\<open>data && data.success\<close> of both handlers.\<close>

definition data_success :: "json \<Rightarrow> bool" where
  "data_success d = (if truthy_data d then truthy (get_field d ''success'') else False)"

text \<open>
  The conversion that the \<^verbatim>\<open>textContent\<close> setter applies to the assigned value:
  \<^verbatim>\<open>null\<close> and \<^verbatim>\<open>undefined\<close> give the empty text, other values their
  \<^verbatim>\<open>String(...)\<close>.
\<close>

fun to_textContent :: "jsprim option \<Rightarrow> string" where
  "to_textContent None = []"
| "to_textContent (Some JNull) = []"
| "to_textContent (Some (JBool b)) = (if b then ''true'' else ''false'')"
| "to_textContent (Some (JStr s)) = s"

text \<open>\<^verbatim>\<open>data.status_display || data.status || fallback\<close>, as assigned to the status label.\<close>

definition status_text :: "json \<Rightarrow> string \<Rightarrow> string" where
  "status_text d fallback =
     to_textContent (js_or (js_or (get_field d ''status_display'') (get_field d ''status''))
                           (Some (JStr fallback)))"

subsection \<open>Strings\<close>

text \<open>White space as \<^verbatim>\<open>String.prototype.trim\<close> and \<^verbatim>\<open>\s\<close> see it (tab, line feed,
  vertical tab, form feed, carriage return, space, no-break space).\<close>

definition is_space :: "char \<Rightarrow> bool" where
  "is_space c = (let n = (of_char c :: nat) in (9 \<le> n \<and> n \<le> 13) \<or> n = 32 \<or> n = 160)"

definition trim :: "string \<Rightarrow> string" where
  "trim s = rev (dropWhile is_space (rev (dropWhile is_space s)))"

definition lower_char :: "char \<Rightarrow> char" where
  "lower_char c =
     (let n = (of_char c :: nat)
      in if (65 \<le> n \<and> n \<le> 90) \<or> (192 \<le> n \<and> n \<le> 222 \<and> n \<noteq> 215)
         then char_of (n + 32) else c)"

definition toLowerCase :: "string \<Rightarrow> string" where
  "toLowerCase s = map lower_char s"

subsection \<open>getCookie\<close>

text \<open>
  \<^verbatim>\<open>document.cookie.match('(^|;)\\s*' + name + '\\s*=\\s*([^;]+)')\<close> searches the
  cookie string for the leftmost match; \<^verbatim>\<open>v.pop()\<close> is the last capture group.
  The name is taken literally (it holds no character that is special in a regular
  expression and does not start with white space, as \<^verbatim>\<open>csrftoken\<close>).

  \<open>value_group\<close> matches \<^verbatim>\<open>\s*([^;]+)\<close>: the greedy \<^verbatim>\<open>\s*\<close> takes every white
  space character; when nothing that is not a semicolon follows, the matcher backtracks
  and hands the last white space character over to the group.
\<close>

definition value_group :: "string \<Rightarrow> string option" where
  "value_group s =
     (let w = takeWhile is_space s;
          v = takeWhile (\<lambda>c. c \<noteq> CHR '';'') (dropWhile is_space s)
      in if v \<noteq> [] then Some v else if w \<noteq> [] then Some [last w] else None)"

text \<open>\<^verbatim>\<open>\s*name\s*=\s*([^;]+)\<close> at the start of the given text.\<close>

definition match_here :: "string \<Rightarrow> string \<Rightarrow> string option" where
  "match_here name s =
     (let s1 = dropWhile is_space s
      in if take (length name) s1 = name
         then (case dropWhile is_space (drop (length name) s1) of
                 [] \<Rightarrow> None
               | c # s3 \<Rightarrow> if c = CHR ''='' then value_group s3 else None)
         else None)"

text \<open>The alternative \<^verbatim>\<open>;\<close> of \<^verbatim>\<open>(^|;)\<close>, tried at every position from the left.\<close>

fun match_after_semicolon :: "string \<Rightarrow> string \<Rightarrow> string option" where
  "match_after_semicolon name [] = None"
| "match_after_semicolon name (c # cs) =
     (if c = CHR '';''
      then (case match_here name cs of
              Some v \<Rightarrow> Some v
            | None \<Rightarrow> match_after_semicolon name cs)
      else match_after_semicolon name cs)"

text \<open>At position 0 the alternative \<^verbatim>\<open>^\<close> is tried first.\<close>

definition getCookie :: "string \<Rightarrow> string \<Rightarrow> string" where
  "getCookie cookie name =
     (case match_here name cookie of
        Some v \<Rightarrow> v
      | None \<Rightarrow> (case match_after_semicolon name cookie of Some v \<Rightarrow> v | None \<Rightarrow> []))"

subsection \<open>The page and the state of the widget\<close>

text \<open>
  A participant row (\<^verbatim>\<open>tr\<close>) with the data attributes and the four
  descendants the handlers look up: the text of \<^verbatim>\<open>.actionStatus\<close> and of
  \<^verbatim>\<open>.ekyc-status\<close>, and the \<^verbatim>\<open>disabled\<close> flag of \<^verbatim>\<open>.recordBtn\<close> and
  of \<^verbatim>\<open>.verifyBtn\<close>. \<open>in_ekyc_table\<close> says whether the row is matched by
  \<^verbatim>\<open>#ekyc_table tbody tr\<close>.
\<close>

record row =
  in_ekyc_table :: bool
  participantId :: "string option"
  participantRole :: "string option"
  actionStatus :: "string option"
  ekyc_status :: "string option"
  recordBtn :: "bool option"
  verifyBtn :: "bool option"

text \<open>A button can be clicked when it exists and is not disabled.\<close>

definition enabled :: "bool option \<Rightarrow> bool" where
  "enabled b = (b = Some False)"

text \<open>A request handed to \<^verbatim>\<open>fetch\<close>: its first argument (which may be
  \<^verbatim>\<open>undefined\<close>), the method, the headers and the entries of the \<^verbatim>\<open>FormData\<close>
  body, in the order they were appended.\<close>

record request =
  url :: "string option"
  http_method :: string
  headers :: "(string \<times> string) list"
  body :: "(string \<times> string) list"

text \<open>
  What the event loop holds for the widget: callbacks waiting for a timer, and handlers
  waiting for the answer to their request. A handler suspended at
  \<^verbatim>\<open>await new Promise(r=>setTimeout(r,1500))\<close> has already read the row and its
  data attributes; they travel with the continuation.
\<close>

datatype timer_task =
    TestDone
  | RecordSend nat "string option" "string option"
  | VerifySend nat "string option" "string option"
  | Reload

datatype fetch_task = RecordResp nat | VerifyResp nat

record page =
  ekyc_root :: "string option option"
  location_href :: string
  cookie :: string
  testBtn :: "bool option"
  testStatus :: "string option"
  loader :: "string option"
  participantsWrapper :: "string option"
  doneMsg :: "string option"
  rows :: "row list"
  focused :: "nat option"

text \<open>
  \<open>ekyc_root\<close> is \<open>None\<close> when there is no \<^verbatim>\<open>#ekyc_root\<close>, \<open>Some None\<close> when
  the element has no \<^verbatim>\<open>data-endpoint\<close> attribute. \<open>testBtn\<close> is the
  \<^verbatim>\<open>disabled\<close> flag of \<^verbatim>\<open>#testConnectionBtn\<close>; \<open>loader\<close>,
  \<open>participantsWrapper\<close> and \<open>doneMsg\<close> are the \<^verbatim>\<open>style.display\<close> of their
  elements; \<open>focused\<close> is the row whose record button received \<^verbatim>\<open>focus()\<close> last.
\<close>

record widget = page +
  endpoint :: "string option"
  timers :: "(nat \<times> timer_task) list"
  fetches :: "fetch_task list"
  requests :: "request list"
  reloaded :: bool

subsection \<open>Initialisation (the \<^verbatim>\<open>DOMContentLoaded\<close> listener)\<close>

text \<open>\<^verbatim>\<open>const endpoint = root ? root.dataset.endpoint : window.location.href;\<close>\<close>

definition endpoint_of :: "string option option \<Rightarrow> string \<Rightarrow> string option" where
  "endpoint_of root href = (case root of None \<Rightarrow> Some href | Some r \<Rightarrow> r)"

text \<open>Without a test button the listener returns before it installs any handler.\<close>

definition DOMContentLoaded :: "page \<Rightarrow> widget option" where
  "DOMContentLoaded p =
     (case testBtn p of
        None \<Rightarrow> None
      | Some b \<Rightarrow>
          Some \<lparr> ekyc_root = ekyc_root p, location_href = location_href p, cookie = cookie p,
                 testBtn = testBtn p, testStatus = testStatus p, loader = loader p,
                 participantsWrapper = participantsWrapper p, doneMsg = doneMsg p,
                 rows = rows p, focused = focused p,
                 endpoint = endpoint_of (ekyc_root p) (location_href p),
                 timers = [], fetches = [], requests = [], reloaded = False \<rparr>)"

subsection \<open>The test-connection handler\<close>

definition testBtn_click :: "widget \<Rightarrow> widget" where
  "testBtn_click w =
     w\<lparr> testBtn := Some True,
        testStatus := map_option (\<lambda>_. ''Testing...'') (testStatus w),
        loader := map_option (\<lambda>_. ''block'') (loader w),
        timers := timers w @ [(2000, TestDone)] \<rparr>"

text \<open>\<^verbatim>\<open>document.querySelector('.recordBtn:not([disabled])')\<close>: the first record
  button in document order that is not disabled.\<close>

fun first_enabled_record :: "row list \<Rightarrow> nat option" where
  "first_enabled_record [] = None"
| "first_enabled_record (r # rs) =
     (if enabled (recordBtn r) then Some 0 else map_option Suc (first_enabled_record rs))"

definition testBtn_timeout :: "widget \<Rightarrow> widget" where
  "testBtn_timeout w =
     w\<lparr> loader := map_option (\<lambda>_. ''none'') (loader w),
        testStatus := map_option (\<lambda>_. ''Connection succeeded!'') (testStatus w),
        participantsWrapper := map_option (\<lambda>_. ''block'') (participantsWrapper w),
        focused := (case first_enabled_record (rows w) of
                      None \<Rightarrow> focused w
                    | Some j \<Rightarrow> Some j) \<rparr>"

subsection \<open>The record handler\<close>

text \<open>Writing into one row; the other rows keep their place.\<close>

definition update_row :: "nat \<Rightarrow> (row \<Rightarrow> row) \<Rightarrow> widget \<Rightarrow> widget" where
  "update_row i f w = w\<lparr> rows := (rows w)[i := f (rows w ! i)] \<rparr>"

text \<open>From the click to the first \<^verbatim>\<open>await\<close>: the caption, both buttons, the timer.\<close>

definition record_click :: "nat \<Rightarrow> widget \<Rightarrow> widget" where
  "record_click i w =
     (let r = rows w ! i;
          w1 = update_row i (\<lambda>r. r\<lparr> actionStatus := map_option (\<lambda>_. '' Recording...'') (actionStatus r),
                                      recordBtn := Some True,
                                      verifyBtn := map_option (\<lambda>_. True) (verifyBtn r) \<rparr>) w
      in w1\<lparr> timers := timers w1 @ [(1500, RecordSend i (participantId r) (participantRole r))] \<rparr>)"

text \<open>\<^verbatim>\<open>FormData.append\<close> stores the string of its value; a missing data attribute
  reads as \<^verbatim>\<open>undefined\<close>.\<close>

definition formdata_value :: "string option \<Rightarrow> string" where
  "formdata_value v = (case v of None \<Rightarrow> ''undefined'' | Some s \<Rightarrow> s)"

definition post_request :: "widget \<Rightarrow> string \<Rightarrow> string option \<Rightarrow> string option \<Rightarrow> request" where
  "post_request w act pid role =
     \<lparr> url = endpoint w,
       http_method = ''POST'',
       headers = [(''X-Requested-With'', ''XMLHttpRequest''),
                  (''X-CSRFToken'', getCookie (cookie w) ''csrftoken'')],
       body = [(''action'', act),
               (''participant_id'', formdata_value pid),
               (''participant_role'', formdata_value role)] \<rparr>"

text \<open>After the 1500 ms: the form is built and \<^verbatim>\<open>fetch\<close> is called.\<close>

definition record_send :: "nat \<Rightarrow> string option \<Rightarrow> string option \<Rightarrow> widget \<Rightarrow> widget" where
  "record_send i pid role w =
     w\<lparr> requests := requests w @ [post_request w ''record_fingerprint'' pid role],
        fetches := fetches w @ [RecordResp i] \<rparr>"

text \<open>The rest of the \<^verbatim>\<open>try\<close> block and the \<^verbatim>\<open>catch\<close> clause. Nothing in the
  block can throw once the value is decoded.\<close>

definition record_done :: "nat \<Rightarrow> outcome \<Rightarrow> widget \<Rightarrow> widget" where
  "record_done i out w =
     (case out of
        Threw \<Rightarrow>
          update_row i (\<lambda>r. r\<lparr> actionStatus := map_option (\<lambda>_. '' Error'') (actionStatus r) \<rparr>) w
      | Parsed d \<Rightarrow>
          if data_success d
          then update_row i
                 (\<lambda>r. r\<lparr> ekyc_status := map_option (\<lambda>_. status_text d ''Recorded'') (ekyc_status r),
                          actionStatus := map_option (\<lambda>_. '' Fingerprint recorded'') (actionStatus r),
                          verifyBtn := map_option (\<lambda>_. False) (verifyBtn r) \<rparr>) w
          else update_row i
                 (\<lambda>r. r\<lparr> actionStatus := map_option (\<lambda>_. '' Failed'') (actionStatus r) \<rparr>) w)"

subsection \<open>The verify handler\<close>

definition verify_click :: "nat \<Rightarrow> widget \<Rightarrow> widget" where
  "verify_click i w =
     (let r = rows w ! i;
          w1 = update_row i (\<lambda>r. r\<lparr> actionStatus := map_option (\<lambda>_. '' Verifying...'') (actionStatus r),
                                      verifyBtn := Some True,
                                      recordBtn := map_option (\<lambda>_. True) (recordBtn r) \<rparr>) w
      in w1\<lparr> timers := timers w1 @ [(1500, VerifySend i (participantId r) (participantRole r))] \<rparr>)"

definition verify_send :: "nat \<Rightarrow> string option \<Rightarrow> string option \<Rightarrow> widget \<Rightarrow> widget" where
  "verify_send i pid role w =
     w\<lparr> requests := requests w @ [post_request w ''verify_ekyc'' pid role],
        fetches := fetches w @ [VerifyResp i] \<rparr>"

text \<open>
  \<^verbatim>\<open>all.every(r => r.querySelector('.ekyc-status').textContent.trim().toLowerCase() === 'verified')\<close>:
  the rows are visited in order, the visit stops at the first row that does not read
  ``verified'', and reading \<^verbatim>\<open>textContent\<close> of \<^verbatim>\<open>null\<close> throws a
  \<^verbatim>\<open>TypeError\<close>.
\<close>

datatype js_error = TypeError

fun every_verified :: "row list \<Rightarrow> js_error + bool" where
  "every_verified [] = Inr True"
| "every_verified (r # rs) =
     (case ekyc_status r of
        None \<Rightarrow> Inl TypeError
      | Some t \<Rightarrow> if toLowerCase (trim t) = ''verified'' then every_verified rs else Inr False)"

text \<open>The rows matched by \<^verbatim>\<open>#ekyc_table tbody tr\<close>, in document order.\<close>

definition table_rows :: "widget \<Rightarrow> row list" where
  "table_rows w = filter in_ekyc_table (rows w)"

text \<open>
  The rest of the \<^verbatim>\<open>try\<close> block and the \<^verbatim>\<open>catch\<close> clause. In the success
  branch the label, the caption and the buttons are written first; the scan of the
  table follows, and when it throws, the \<^verbatim>\<open>catch\<close> clause writes the caption again.
\<close>

definition verify_done :: "nat \<Rightarrow> outcome \<Rightarrow> widget \<Rightarrow> widget" where
  "verify_done i out w =
     (case out of
        Threw \<Rightarrow>
          update_row i (\<lambda>r. r\<lparr> actionStatus := map_option (\<lambda>_. '' Error'') (actionStatus r) \<rparr>) w
      | Parsed d \<Rightarrow>
          if data_success d
          then (let w1 = update_row i
                      (\<lambda>r. r\<lparr> ekyc_status := map_option (\<lambda>_. status_text d ''Verified'') (ekyc_status r),
                               actionStatus := map_option (\<lambda>_. '' Verified'') (actionStatus r),
                               recordBtn := map_option (\<lambda>_. True) (recordBtn r),
                               verifyBtn := Some True \<rparr>) w
                in case every_verified (table_rows w1) of
                     Inl e \<Rightarrow>
                       update_row i
                         (\<lambda>r. r\<lparr> actionStatus := map_option (\<lambda>_. '' Error'') (actionStatus r) \<rparr>) w1
                   | Inr allVerified \<Rightarrow>
                       if allVerified
                       then w1\<lparr> doneMsg := map_option (\<lambda>_. ''block'') (doneMsg w1),
                                timers := timers w1 @ [(900, Reload)] \<rparr>
                       else w1)
          else update_row i
                 (\<lambda>r. r\<lparr> actionStatus := map_option (\<lambda>_. '' Failed'') (actionStatus r) \<rparr>) w)"

subsection \<open>The event loop\<close>

text \<open>
  The events that reach the widget. A click names the button it hits; the browser
  dispatches no click event for a button that is disabled, so such a click is not a
  step. \<open>ClickElsewhere\<close> is a click whose target carries neither marker class, or
  has no enclosing row: the handler returns at once. \<open>Timeout k\<close> fires the
  \<open>k\<close>-th pending timer, \<open>Response k out\<close> settles the \<open>k\<close>-th pending request.
  Timers and requests are taken in any order, which covers the order real time
  gives them. \<^verbatim>\<open>location.reload()\<close> discards the document with everything pending;
  no event reaches the widget afterwards.
\<close>

datatype event =
    ClickTest
  | ClickRecord nat
  | ClickVerify nat
  | ClickElsewhere
  | Timeout nat
  | Response nat outcome

definition remove_nth :: "nat \<Rightarrow> 'a list \<Rightarrow> 'a list" where
  "remove_nth k xs = take k xs @ drop (Suc k) xs"

fun run_timer :: "timer_task \<Rightarrow> widget \<Rightarrow> widget" where
  "run_timer TestDone w = testBtn_timeout w"
| "run_timer (RecordSend i pid role) w = record_send i pid role w"
| "run_timer (VerifySend i pid role) w = verify_send i pid role w"
| "run_timer Reload w = w\<lparr> reloaded := True, timers := [], fetches := [] \<rparr>"

fun run_fetch :: "fetch_task \<Rightarrow> outcome \<Rightarrow> widget \<Rightarrow> widget" where
  "run_fetch (RecordResp i) out w = record_done i out w"
| "run_fetch (VerifyResp i) out w = verify_done i out w"

definition step :: "event \<Rightarrow> widget \<Rightarrow> widget option" where
  "step ev w =
     (if reloaded w then None
      else case ev of
        ClickTest \<Rightarrow> if enabled (testBtn w) then Some (testBtn_click w) else None
      | ClickRecord i \<Rightarrow>
          if i < length (rows w) \<and> enabled (recordBtn (rows w ! i))
          then Some (record_click i w) else None
      | ClickVerify i \<Rightarrow>
          if i < length (rows w) \<and> enabled (verifyBtn (rows w ! i))
          then Some (verify_click i w) else None
      | ClickElsewhere \<Rightarrow> Some w
      | Timeout k \<Rightarrow>
          if k < length (timers w)
          then Some (run_timer (snd (timers w ! k)) (w\<lparr> timers := remove_nth k (timers w) \<rparr>))
          else None
      | Response k out \<Rightarrow>
          if k < length (fetches w)
          then Some (run_fetch (fetches w ! k) out (w\<lparr> fetches := remove_nth k (fetches w) \<rparr>))
          else None)"

fun run :: "event list \<Rightarrow> widget \<Rightarrow> widget option" where
  "run [] w = Some w"
| "run (ev # evs) w = (case step ev w of None \<Rightarrow> None | Some w' \<Rightarrow> run evs w')"

subsection \<open>Actions in flight\<close>

text \<open>The row a pending timer or request belongs to.\<close>

definition timer_row :: "timer_task \<Rightarrow> nat option" where
  "timer_row t =
     (case t of
        RecordSend i pid role \<Rightarrow> Some i
      | VerifySend i pid role \<Rightarrow> Some i
      | TestDone \<Rightarrow> None
      | Reload \<Rightarrow> None)"

definition fetch_row :: "fetch_task \<Rightarrow> nat" where
  "fetch_row f = (case f of RecordResp i \<Rightarrow> i | VerifyResp i \<Rightarrow> i)"

text \<open>The number of record and verify actions of row \<open>i\<close> that have started and not
  finished yet.\<close>

definition in_flight :: "widget \<Rightarrow> nat \<Rightarrow> nat" where
  "in_flight w i =
     length (filter (\<lambda>t. timer_row (snd t) = Some i) (timers w)) +
     length (filter (\<lambda>f. fetch_row f = i) (fetches w))"

definition is_record_timer :: "nat \<Rightarrow> timer_task \<Rightarrow> bool" where
  "is_record_timer i t = (case t of RecordSend j pid role \<Rightarrow> j = i | _ \<Rightarrow> False)"

definition is_verify_timer :: "nat \<Rightarrow> timer_task \<Rightarrow> bool" where
  "is_verify_timer i t = (case t of VerifySend j pid role \<Rightarrow> j = i | _ \<Rightarrow> False)"

definition record_pending :: "widget \<Rightarrow> nat \<Rightarrow> bool" where
  "record_pending w i =
     (list_ex (\<lambda>t. is_record_timer i (snd t)) (timers w) \<or> RecordResp i \<in> set (fetches w))"

definition verify_pending :: "widget \<Rightarrow> nat \<Rightarrow> bool" where
  "verify_pending w i =
     (list_ex (\<lambda>t. is_verify_timer i (snd t)) (timers w) \<or> VerifyResp i \<in> set (fetches w))"

text \<open>Neither button of row \<open>i\<close> can be clicked.\<close>

definition row_locked :: "widget \<Rightarrow> nat \<Rightarrow> bool" where
  "row_locked w i =
     (i < length (rows w) \<and> \<not> enabled (recordBtn (rows w ! i)) \<and>
      \<not> enabled (verifyBtn (rows w ! i)))"

text \<open>The invariant of the event loop: a row has at most one action in flight, and
  while it has one, both of its buttons are locked.\<close>

definition widget_inv :: "widget \<Rightarrow> bool" where
  "widget_inv w = (\<forall>i. in_flight w i \<le> 1 \<and> (0 < in_flight w i \<longrightarrow> row_locked w i))"

text \<open>A row that has come to rest: nothing in flight, both buttons locked.\<close>

definition settled :: "widget \<Rightarrow> nat \<Rightarrow> bool" where
  "settled w i = (in_flight w i = 0 \<and> row_locked w i)"

subsection \<open>What the scan of the table reads\<close>

text \<open>The test of one row in the scan, for a row that has a status label.\<close>

definition reads_verified :: "row \<Rightarrow> bool" where
  "reads_verified r =
     (case ekyc_status r of None \<Rightarrow> False | Some t \<Rightarrow> toLowerCase (trim t) = ''verified'')"

text \<open>The scan sees only whether a row is in the table and what its label reads.\<close>

definition scan_view :: "row \<Rightarrow> bool \<times> string option" where
  "scan_view r = (in_ekyc_table r, ekyc_status r)"

subsection \<open>The cookie string of the browser\<close>

text \<open>
  \<^verbatim>\<open>document.cookie\<close> lists the cookies as \<^verbatim>\<open>name=value\<close>, separated by a
  semicolon and a space. A cookie name holds no white space, semicolon or equals sign;
  a value holds no semicolon and does not start with white space.
\<close>

fun document_cookie :: "(string \<times> string) list \<Rightarrow> string" where
  "document_cookie [] = []"
| "document_cookie [(k, v)] = k @ ''='' @ v"
| "document_cookie ((k, v) # c # cs) = k @ ''='' @ v @ ''; '' @ document_cookie (c # cs)"

definition name_ok :: "string \<Rightarrow> bool" where
  "name_ok k = (\<forall>c \<in> set k. \<not> is_space c \<and> c \<noteq> CHR '';'' \<and> c \<noteq> CHR ''='')"

definition value_ok :: "string \<Rightarrow> bool" where
  "value_ok v =
     ((\<forall>c \<in> set v. c \<noteq> CHR '';'') \<and> (case v of [] \<Rightarrow> True | c # cs \<Rightarrow> \<not> is_space c))"

definition jar_ok :: "(string \<times> string) list \<Rightarrow> bool" where
  "jar_ok jar = (\<forall>kv \<in> set jar. name_ok (fst kv) \<and> value_ok (snd kv))"

text \<open>The search of \<open>getCookie\<close>, before the result is turned into a string.\<close>

definition cookie_match :: "string \<Rightarrow> string \<Rightarrow> string option" where
  "cookie_match n s =
     (case match_here n s of Some v \<Rightarrow> Some v | None \<Rightarrow> match_after_semicolon n s)"

subsection \<open>A page to run the widget on\<close>

text \<open>Two participants: a trainee whose fingerprint is still to be recorded, and a
  trainer who is verified already.\<close>

definition sample_rows :: "row list" where
  "sample_rows =
     [\<lparr> in_ekyc_table = True, participantId = Some ''42'', participantRole = Some ''trainee'',
         actionStatus = Some [], ekyc_status = Some ''Pending'',
         recordBtn = Some False, verifyBtn = Some True \<rparr>,
      \<lparr> in_ekyc_table = True, participantId = Some ''43'', participantRole = Some ''trainer'',
         actionStatus = Some [], ekyc_status = Some ''Verified'',
         recordBtn = Some True, verifyBtn = Some True \<rparr>]"

definition sample_jar :: "(string \<times> string) list" where
  "sample_jar = [(''sessionid'', ''abc''), (''csrftoken'', ''tok123'')]"

definition sample_page :: page where
  "sample_page =
     \<lparr> ekyc_root = Some (Some ''/attendance/7/ekyc/''),
       location_href = ''https://tms.example/attendance/7/'',
       cookie = ''sessionid=abc; csrftoken=tok123'',
       testBtn = Some False, testStatus = Some [], loader = Some ''none'',
       participantsWrapper = Some ''none'', doneMsg = Some ''none'',
       rows = sample_rows, focused = None \<rparr>"

text \<open>The widget on that page, as the \<^verbatim>\<open>DOMContentLoaded\<close> listener leaves it.\<close>

definition sample_widget :: widget where
  "sample_widget =
     \<lparr> ekyc_root = Some (Some ''/attendance/7/ekyc/''),
       location_href = ''https://tms.example/attendance/7/'',
       cookie = ''sessionid=abc; csrftoken=tok123'',
       testBtn = Some False, testStatus = Some [], loader = Some ''none'',
       participantsWrapper = Some ''none'', doneMsg = Some ''none'',
       rows = sample_rows, focused = None,
       endpoint = Some ''/attendance/7/ekyc/'',
       timers = [], fetches = [], requests = [], reloaded = False \<rparr>"

text \<open>Answers of the server: a record and a verify that succeed, the same with a
  \<^verbatim>\<open>status_display\<close> that is present and empty, a verify that succeeds with another
  label, and a refusal.\<close>

definition sample_recorded :: json where
  "sample_recorded = Obj [(''success'', JBool True), (''status_display'', JStr ''Recorded'')]"

definition sample_verified :: json where
  "sample_verified = Obj [(''success'', JBool True), (''status'', JStr ''VERIFIED'')]"

definition sample_recorded_blank :: json where
  "sample_recorded_blank =
     Obj [(''success'', JBool True), (''status_display'', JStr []), (''status'', JStr ''RECORDED'')]"

definition sample_verified_blank :: json where
  "sample_verified_blank =
     Obj [(''success'', JBool True), (''status_display'', JStr []), (''status'', JStr ''VERIFIED'')]"

definition sample_held :: json where
  "sample_held = Obj [(''success'', JBool True), (''status_display'', JStr ''On hold'')]"

definition sample_refused :: json where
  "sample_refused = Obj [(''success'', JBool False), (''error'', JStr ''no match'')]"

text \<open>
  The states of the sample page along one run: the record button of the trainee is
  clicked and the request goes out; it is answered (with success, with a refusal, or
  not at all); the verify button is clicked and the request goes out; it is answered
  with success; the page reloads.
\<close>

definition sample_after_send :: widget where
  "sample_after_send = the (run [ClickRecord 0, Timeout 0] sample_widget)"

definition sample_after_record :: widget where
  "sample_after_record = the (step (Response 0 (Parsed sample_recorded)) sample_after_send)"

definition sample_record_error :: widget where
  "sample_record_error = the (step (Response 0 Threw) sample_after_send)"

definition sample_record_failed :: widget where
  "sample_record_failed = the (step (Response 0 (Parsed sample_refused)) sample_after_send)"

definition sample_before_verified :: widget where
  "sample_before_verified = the (run [ClickVerify 0, Timeout 0] sample_after_record)"

definition sample_after_verified :: widget where
  "sample_after_verified =
     the (step (Response 0 (Parsed sample_verified)) sample_before_verified)"

definition sample_reloaded :: widget where
  "sample_reloaded = the (step (Timeout 0) sample_after_verified)"

text \<open>The sample page with a third row that has no status label, at the moment the
  verify request of the first row is out; and the sample page after the connection
  test.\<close>

definition sample_unlabelled :: widget where
  "sample_unlabelled =
     sample_before_verified
       \<lparr> rows := rows sample_before_verified @
            [\<lparr> in_ekyc_table = True, participantId = Some ''44'', participantRole = Some ''trainee'',
                actionStatus = Some [], ekyc_status = None,
                recordBtn = Some False, verifyBtn = Some True \<rparr>] \<rparr>"

definition sample_tested :: widget where
  "sample_tested = the (run [ClickTest, Timeout 0] sample_widget)"

section \<open>Properties\<close>

subsection \<open>Frame lemmas: what each handler leaves alone\<close>

lemma rows_update_row [simp]: "rows (update_row i f w) = (rows w)[i := f (rows w ! i)]"
  by (simp add: update_row_def)

lemma timers_update_row [simp]: "timers (update_row i f w) = timers w"
  by (simp add: update_row_def)

lemma fetches_update_row [simp]: "fetches (update_row i f w) = fetches w"
  by (simp add: update_row_def)

lemma requests_update_row [simp]: "requests (update_row i f w) = requests w"
  by (simp add: update_row_def)

lemma reloaded_update_row [simp]: "reloaded (update_row i f w) = reloaded w"
  by (simp add: update_row_def)

lemma doneMsg_update_row [simp]: "doneMsg (update_row i f w) = doneMsg w"
  by (simp add: update_row_def)

lemma length_rows_run_timer [simp]: "length (rows (run_timer t w)) = length (rows w)"
  by (cases t) (simp_all add: testBtn_timeout_def record_send_def verify_send_def)

lemma length_rows_record_done [simp]: "length (rows (record_done i out w)) = length (rows w)"
  by (cases out) (simp_all add: record_done_def)

lemma length_rows_verify_done [simp]: "length (rows (verify_done i out w)) = length (rows w)"
  by (cases out) (simp_all add: verify_done_def Let_def split: sum.splits)

lemma length_rows_run_fetch [simp]: "length (rows (run_fetch f out w)) = length (rows w)"
  by (cases f) simp_all

lemma length_rows_record_click [simp]: "length (rows (record_click i w)) = length (rows w)"
  by (simp add: record_click_def Let_def)

lemma length_rows_verify_click [simp]: "length (rows (verify_click i w)) = length (rows w)"
  by (simp add: verify_click_def Let_def)

lemma other_row_record_done: "i \<noteq> j \<Longrightarrow> rows (record_done j out w) ! i = rows w ! i"
  by (cases out) (simp_all add: record_done_def)

lemma other_row_verify_done: "i \<noteq> j \<Longrightarrow> rows (verify_done j out w) ! i = rows w ! i"
  by (cases out) (simp_all add: verify_done_def Let_def split: sum.splits)

lemma other_row_run_fetch: "i \<noteq> fetch_row f \<Longrightarrow> rows (run_fetch f out w) ! i = rows w ! i"
  by (cases f) (simp_all add: fetch_row_def other_row_record_done other_row_verify_done)

lemma rows_run_timer [simp]: "rows (run_timer t w) = rows w"
  by (cases t) (simp_all add: testBtn_timeout_def record_send_def verify_send_def)

lemma timers_record_done [simp]: "timers (record_done i out w) = timers w"
  by (cases out) (simp_all add: record_done_def)

lemma fetches_record_done [simp]: "fetches (record_done i out w) = fetches w"
  by (cases out) (simp_all add: record_done_def)

lemma fetches_verify_done [simp]: "fetches (verify_done i out w) = fetches w"
  by (cases out) (simp_all add: verify_done_def Let_def split: sum.splits)

lemma timers_verify_done:
  "timers (verify_done i out w) = timers w \<or> timers (verify_done i out w) = timers w @ [(900, Reload)]"
  by (cases out) (simp_all add: verify_done_def Let_def split: sum.splits)

lemma reloaded_record_done [simp]: "reloaded (record_done i out w) = reloaded w"
  by (cases out) (simp_all add: record_done_def)

lemma reloaded_verify_done [simp]: "reloaded (verify_done i out w) = reloaded w"
  by (cases out) (simp_all add: verify_done_def Let_def split: sum.splits)

lemma reloaded_run_fetch [simp]: "reloaded (run_fetch f out w) = reloaded w"
  by (cases f) simp_all

subsection \<open>The invariant of the event loop\<close>

lemma filter_remove_nth:
  "k < length xs \<Longrightarrow>
   length (filter P (remove_nth k xs)) = length (filter P xs) - (if P (xs ! k) then 1 else 0)"
proof -
  assume k: "k < length xs"
  have "xs = take k xs @ xs ! k # drop (Suc k) xs" using k by (rule id_take_nth_drop)
  then have "length (filter P xs) = length (filter P (take k xs @ xs ! k # drop (Suc k) xs))" by simp
  then show ?thesis by (simp add: remove_nth_def)
qed

lemma filter_nth_pos: "k < length xs \<Longrightarrow> P (xs ! k) \<Longrightarrow> 0 < length (filter P xs)"
  by (metis filter_empty_conv length_greater_0_conv nth_mem)

lemma widget_inv_init: "DOMContentLoaded p = Some w \<Longrightarrow> widget_inv w"
  by (auto simp: DOMContentLoaded_def widget_inv_def in_flight_def split: option.splits)


lemma in_flight_run_fetch:
  "in_flight (run_fetch f out w) i = in_flight w i"
proof (cases f)
  case (RecordResp j)
  then show ?thesis by (simp add: in_flight_def)
next
  case (VerifyResp j)
  from timers_verify_done [of j out w] show ?thesis
    using VerifyResp by (auto simp: in_flight_def timer_row_def)
qed

lemma in_flight_run_timer:
  "t \<noteq> Reload \<Longrightarrow>
   in_flight (run_timer t w) i = in_flight w i + (if timer_row t = Some i then 1 else 0)"
  by (cases t) (simp_all add: in_flight_def timer_row_def fetch_row_def testBtn_timeout_def
      record_send_def verify_send_def)

lemma in_flight_drop_timer:
  "k < length (timers w) \<Longrightarrow>
   in_flight (w\<lparr>timers := remove_nth k (timers w)\<rparr>) i =
   in_flight w i - (if timer_row (snd (timers w ! k)) = Some i then 1 else 0)"
proof -
  assume k: "k < length (timers w)"
  have "0 < length (filter (\<lambda>t. timer_row (snd t) = Some i) (timers w))"
    if "timer_row (snd (timers w ! k)) = Some i"
    using filter_nth_pos [of k "timers w" "\<lambda>t. timer_row (snd t) = Some i"] k that by simp
  then show ?thesis using k by (auto simp add: in_flight_def filter_remove_nth simp del: length_greater_0_conv)
qed

lemma in_flight_drop_fetch:
  "k < length (fetches w) \<Longrightarrow>
   in_flight (w\<lparr>fetches := remove_nth k (fetches w)\<rparr>) i =
   in_flight w i - (if fetch_row (fetches w ! k) = i then 1 else 0)"
proof -
  assume k: "k < length (fetches w)"
  have "0 < length (filter (\<lambda>f. fetch_row f = i) (fetches w))"
    if "fetch_row (fetches w ! k) = i"
    using filter_nth_pos [of k "fetches w" "\<lambda>f. fetch_row f = i"] k that by simp
  then show ?thesis using k by (auto simp add: in_flight_def filter_remove_nth simp del: length_greater_0_conv)
qed

lemma in_flight_pos_timer:
  "k < length (timers w) \<Longrightarrow> timer_row (snd (timers w ! k)) = Some i \<Longrightarrow> 0 < in_flight w i"
  using filter_nth_pos [of k "timers w" "\<lambda>t. timer_row (snd t) = Some i"]
  by (simp add: in_flight_def)

lemma in_flight_pos_fetch:
  "k < length (fetches w) \<Longrightarrow> fetch_row (fetches w ! k) = i \<Longrightarrow> 0 < in_flight w i"
  using filter_nth_pos [of k "fetches w" "\<lambda>f. fetch_row f = i"]
  by (simp add: in_flight_def)


lemma in_flight_record_click:
  "in_flight (record_click j w) i = in_flight w i + (if i = j then 1 else 0)"
  by (auto simp: in_flight_def record_click_def Let_def timer_row_def)

lemma in_flight_verify_click:
  "in_flight (verify_click j w) i = in_flight w i + (if i = j then 1 else 0)"
  by (auto simp: in_flight_def verify_click_def Let_def timer_row_def)

lemma row_locked_record_click:
  "j < length (rows w) \<Longrightarrow> row_locked (record_click j w) j"
  by (cases "verifyBtn (rows w ! j)") (simp_all add: row_locked_def record_click_def Let_def enabled_def)

lemma row_locked_verify_click:
  "j < length (rows w) \<Longrightarrow> row_locked (verify_click j w) j"
  by (cases "recordBtn (rows w ! j)") (simp_all add: row_locked_def verify_click_def Let_def enabled_def)

lemma row_locked_record_click_other:
  "i \<noteq> j \<Longrightarrow> row_locked (record_click j w) i = row_locked w i"
  by (simp add: row_locked_def record_click_def Let_def)

lemma row_locked_verify_click_other:
  "i \<noteq> j \<Longrightarrow> row_locked (verify_click j w) i = row_locked w i"
  by (simp add: row_locked_def verify_click_def Let_def)

lemma row_locked_run_timer [simp]: "row_locked (run_timer t w) i = row_locked w i"
  by (simp add: row_locked_def)

lemma row_locked_frame:
  "rows w' = rows w \<Longrightarrow> row_locked w' i = row_locked w i"
  by (simp add: row_locked_def)

lemma widget_inv_step:
  assumes "widget_inv w" and "step ev w = Some w'"
  shows "widget_inv w'"
  unfolding widget_inv_def
proof
  fix i
  from assms(1) have le: "in_flight w i \<le> 1" and lock: "0 < in_flight w i \<Longrightarrow> row_locked w i"
    by (simp_all add: widget_inv_def)
  from assms(2) have live: "\<not> reloaded w" by (simp add: step_def split: if_splits)
  show "in_flight w' i \<le> 1 \<and> (0 < in_flight w' i \<longrightarrow> row_locked w' i)"
  proof (cases ev)
    case ClickTest
    with assms(2) live have "w' = testBtn_click w" by (simp add: step_def split: if_splits)
    then have "in_flight w' i = in_flight w i" and "rows w' = rows w"
      by (simp_all add: in_flight_def testBtn_click_def timer_row_def)
    with le lock row_locked_frame [of w' w i] show ?thesis by simp
  next
    case (ClickRecord j)
    with assms(2) live have w': "w' = record_click j w" and j: "j < length (rows w)"
      and en: "enabled (recordBtn (rows w ! j))"
      by (simp_all add: step_def split: if_splits)
    show ?thesis
    proof (cases "i = j")
      case True
      with lock en have "in_flight w i = 0" by (auto simp: row_locked_def)
      with True w' j show ?thesis
        by (simp add: in_flight_record_click row_locked_record_click)
    next
      case False
      with w' le lock show ?thesis
        by (simp add: in_flight_record_click row_locked_record_click_other)
    qed
  next
    case (ClickVerify j)
    with assms(2) live have w': "w' = verify_click j w" and j: "j < length (rows w)"
      and en: "enabled (verifyBtn (rows w ! j))"
      by (simp_all add: step_def split: if_splits)
    show ?thesis
    proof (cases "i = j")
      case True
      with lock en have "in_flight w i = 0" by (auto simp: row_locked_def)
      with True w' j show ?thesis
        by (simp add: in_flight_verify_click row_locked_verify_click)
    next
      case False
      with w' le lock show ?thesis
        by (simp add: in_flight_verify_click row_locked_verify_click_other)
    qed
  next
    case ClickElsewhere
    with assms(2) live have "w' = w" by (simp add: step_def)
    with le lock show ?thesis by simp
  next
    case (Timeout k)
    with assms(2) live have k: "k < length (timers w)"
      and w': "w' = run_timer (snd (timers w ! k)) (w\<lparr>timers := remove_nth k (timers w)\<rparr>)"
      by (simp_all add: step_def split: if_splits)
    show ?thesis
    proof (cases "snd (timers w ! k) = Reload")
      case True
      with w' show ?thesis by (simp add: in_flight_def)
    next
      case False
      have "in_flight w' i = in_flight w i"
        using w' False k in_flight_pos_timer [of k w i]
        by (auto simp: in_flight_run_timer in_flight_drop_timer)
      moreover have "row_locked w' i = row_locked w i"
        using w' by (simp add: row_locked_def)
      ultimately show ?thesis using le lock by simp
    qed
  next
    case (Response k out)
    with assms(2) live have k: "k < length (fetches w)"
      and w': "w' = run_fetch (fetches w ! k) out (w\<lparr>fetches := remove_nth k (fetches w)\<rparr>)"
      by (simp_all add: step_def split: if_splits)
    show ?thesis
    proof (cases "fetch_row (fetches w ! k) = i")
      case True
      with k have "0 < in_flight w i" by (rule in_flight_pos_fetch)
      with le have "in_flight w i = 1" by simp
      with w' k True show ?thesis
        by (simp add: in_flight_run_fetch in_flight_drop_fetch)
    next
      case False
      then have "in_flight w' i = in_flight w i"
        using w' k by (simp add: in_flight_run_fetch in_flight_drop_fetch)
      moreover have "row_locked w' i = row_locked w i"
        using w' False other_row_run_fetch [of i "fetches w ! k" out "w\<lparr>fetches := remove_nth k (fetches w)\<rparr>"]
        by (simp add: row_locked_def)
      ultimately show ?thesis using le lock by simp
    qed
  qed
qed

lemma widget_inv_run: "widget_inv w \<Longrightarrow> run evs w = Some w' \<Longrightarrow> widget_inv w'"
proof (induction evs arbitrary: w)
  case Nil
  then show ?case by simp
next
  case (Cons ev evs)
  then show ?case by (auto split: option.splits dest: widget_inv_step)
qed

subsection \<open>getCookie on the cookie string of a cookie jar\<close>

lemma is_space_simps [simp]: "is_space CHR '' ''" "\<not> is_space CHR '';''" "\<not> is_space CHR ''=''"
  by (simp_all add: is_space_def)

lemma value_group_value:
  assumes "value_ok v" and "rest = [] \<or> hd rest = CHR '';''"
  shows "value_group (v @ rest) = (if v = [] then None else Some v)"
proof (cases v)
  case Nil
  with assms(2) show ?thesis by (cases rest) (auto simp: value_group_def)
next
  case (Cons c cs)
  with assms(1) have c: "\<not> is_space c" and semi: "\<forall>x \<in> set (c # cs). x \<noteq> CHR '';''"
    by (simp_all add: value_ok_def)
  have "takeWhile (\<lambda>c. c \<noteq> CHR '';'') rest = []"
    using assms(2) by (cases rest) auto
  moreover have "takeWhile (\<lambda>c. c \<noteq> CHR '';'') ((c # cs) @ rest) =
      (c # cs) @ takeWhile (\<lambda>c. c \<noteq> CHR '';'') rest"
    using semi by (intro takeWhile_append2) blast
  ultimately have "takeWhile (\<lambda>c. c \<noteq> CHR '';'') ((c # cs) @ rest) = c # cs"
    by simp
  with c Cons show ?thesis by (simp add: value_group_def)
qed

lemma match_here_pair:
  assumes "name_ok k" and "name_ok n"
  shows "match_here n (k @ CHR ''='' # rest) = (if k = n then value_group rest else None)"
proof (cases "k = n")
  case True
  have "dropWhile is_space (n @ CHR ''='' # rest) = n @ CHR ''='' # rest"
    using assms(2) by (cases n) (auto simp: name_ok_def)
  with True show ?thesis by (simp add: match_here_def)
next
  case False
  let ?s = "k @ CHR ''='' # rest"
  have s1: "dropWhile is_space ?s = ?s"
    using assms(1) by (cases k) (auto simp: name_ok_def)
  show ?thesis
  proof (cases "take (length n) ?s = n")
    case neq: False
    with s1 False show ?thesis by (simp add: match_here_def)
  next
    case pre: True
    have "length n < length k"
    proof (rule ccontr)
      assume "\<not> length n < length k"
      then have ge: "length k \<le> length n" by simp
      show False
      proof (cases "length k = length n")
        case True
        with pre have "k = n" by simp
        with False show False by simp
      next
        case False
        with ge have lt: "length k < length n" by simp
        from pre have "n ! length k = ?s ! length k" using lt
          by (metis nth_take)
        then have "n ! length k = CHR ''=''" by (simp add: nth_append)
        with lt assms(2) show False by (auto simp: name_ok_def dest: nth_mem)
      qed
    qed
    then obtain c cs where d: "drop (length n) k = c # cs"
      by (cases "drop (length n) k") auto
    then have "c \<in> set k" by (metis in_set_dropD list.set_intros(1))
    with assms(1) have c: "\<not> is_space c" "c \<noteq> CHR ''=''" by (auto simp: name_ok_def)
    have "drop (length n) ?s = c # cs @ CHR ''='' # rest"
      using d \<open>length n < length k\<close> by simp
    with s1 pre c False show ?thesis by (simp add: match_here_def)
  qed
qed

lemma match_here_space: "match_here n (CHR '' '' # s) = match_here n s"
  by (simp add: match_here_def)

lemma match_after_semicolon_skip:
  "\<forall>c \<in> set xs. c \<noteq> CHR '';'' \<Longrightarrow> match_after_semicolon n (xs @ ys) = match_after_semicolon n ys"
  by (induction xs) auto

lemma cookie_match_jar:
  assumes "name_ok n"
  shows "jar_ok jar \<Longrightarrow>
    cookie_match n (document_cookie jar) = map_option snd (find (\<lambda>kv. fst kv = n \<and> snd kv \<noteq> []) jar)"
proof (induction jar rule: document_cookie.induct)
  case 1
  then show ?case by (simp add: cookie_match_def match_here_def)
next
  case (2 k v)
  then have k: "name_ok k" and v: "value_ok v" by (simp_all add: jar_ok_def)
  have "match_after_semicolon n ((k @ CHR ''='' # v) @ []) = match_after_semicolon n []"
    using k v by (intro match_after_semicolon_skip) (auto simp: name_ok_def value_ok_def)
  then have after: "match_after_semicolon n (k @ CHR ''='' # v) = None" by simp
  have here: "match_here n (k @ CHR ''='' # v) = (if k = n then (if v = [] then None else Some v) else None)"
    using match_here_pair [OF k assms, of v] value_group_value [OF v, of "[]"] by simp
  have doc: "document_cookie [(k, v)] = k @ CHR ''='' # v" by simp
  show ?case unfolding doc cookie_match_def here after by simp
next
  case (3 k v c cs)
  then have k: "name_ok k" and v: "value_ok v" and rest: "jar_ok (c # cs)"
    by (simp_all add: jar_ok_def)
  let ?R = "document_cookie (c # cs)"
  have here: "match_here n (k @ CHR ''='' # v @ CHR '';'' # CHR '' '' # ?R) =
      (if k = n then (if v = [] then None else Some v) else None)"
    using match_here_pair [OF k assms, of "v @ CHR '';'' # CHR '' '' # ?R"]
      value_group_value [OF v, of "CHR '';'' # CHR '' '' # ?R"] by simp
  have "match_after_semicolon n ((k @ CHR ''='' # v) @ CHR '';'' # CHR '' '' # ?R) =
      match_after_semicolon n (CHR '';'' # CHR '' '' # ?R)"
    using k v by (intro match_after_semicolon_skip) (auto simp: name_ok_def value_ok_def)
  then have after: "match_after_semicolon n (k @ CHR ''='' # v @ CHR '';'' # CHR '' '' # ?R) =
      cookie_match n ?R"
    by (simp add: cookie_match_def match_here_space split: option.splits)
  have doc: "document_cookie ((k, v) # c # cs) = k @ CHR ''='' # v @ CHR '';'' # CHR '' '' # ?R"
    by simp
  have "cookie_match n (document_cookie ((k, v) # c # cs)) =
      (if k = n \<and> v \<noteq> [] then Some v else cookie_match n ?R)"
    unfolding doc unfolding cookie_match_def [of n "k @ CHR ''='' # v @ CHR '';'' # CHR '' '' # ?R"] here after
    by simp
  with "3.IH" [OF rest] show ?case by simp
qed

lemma getCookie_jar:
  assumes "name_ok n" and "jar_ok jar" and "distinct (map fst jar)"
  shows "getCookie (document_cookie jar) n = (case map_of jar n of None \<Rightarrow> [] | Some v \<Rightarrow> v)"
proof -
  have "(case map_option snd (find (\<lambda>kv. fst kv = n \<and> snd kv \<noteq> []) jar) of None \<Rightarrow> [] | Some v \<Rightarrow> v)
      = (case map_of jar n of None \<Rightarrow> [] | Some v \<Rightarrow> v)"
    using assms(3)
  proof (induction jar)
    case Nil
    then show ?case by simp
  next
    case (Cons kv jar)
    obtain k v where kv: "kv = (k, v)" by (cases kv)
    show ?case
    proof (cases "k = n \<and> v = []")
      case True
      with Cons.prems kv have "n \<notin> fst ` set jar" by auto
      then have "find (\<lambda>kv. fst kv = n \<and> snd kv \<noteq> []) jar = None"
        by (force simp: find_None_iff)
      with True kv show ?thesis by simp
    next
      case False
      with Cons kv show ?thesis by auto
    qed
  qed
  moreover have "getCookie (document_cookie jar) n =
      (case cookie_match n (document_cookie jar) of None \<Rightarrow> [] | Some v \<Rightarrow> v)"
    by (simp add: getCookie_def cookie_match_def split: option.splits)
  ultimately show ?thesis using cookie_match_jar [OF assms(1,2)] by simp
qed

subsection \<open>The sample page\<close>

lemma sample_init: "DOMContentLoaded sample_page = Some sample_widget"
  by (simp add: DOMContentLoaded_def sample_page_def sample_widget_def endpoint_of_def)

subsection \<open>Pending actions and settled rows\<close>

lemma record_pending_in_flight: "record_pending w i \<Longrightarrow> 0 < in_flight w i"
proof -
  assume "record_pending w i"
  then consider t where "t \<in> set (timers w)" "is_record_timer i (snd t)"
    | "RecordResp i \<in> set (fetches w)"
    by (auto simp: record_pending_def list_ex_iff)
  then show ?thesis
  proof cases
    case 1
    then have "timer_row (snd t) = Some i"
      by (cases "snd t") (simp_all add: is_record_timer_def timer_row_def)
    with 1 have "filter (\<lambda>t. timer_row (snd t) = Some i) (timers w) \<noteq> []"
      by (auto simp: filter_empty_conv)
    then show ?thesis by (simp add: in_flight_def)
  next
    case 2
    then have "filter (\<lambda>f. fetch_row f = i) (fetches w) \<noteq> []"
      by (force simp: filter_empty_conv fetch_row_def)
    then show ?thesis by (simp add: in_flight_def)
  qed
qed

lemma verify_pending_in_flight: "verify_pending w i \<Longrightarrow> 0 < in_flight w i"
proof -
  assume "verify_pending w i"
  then consider t where "t \<in> set (timers w)" "is_verify_timer i (snd t)"
    | "VerifyResp i \<in> set (fetches w)"
    by (auto simp: verify_pending_def list_ex_iff)
  then show ?thesis
  proof cases
    case 1
    then have "timer_row (snd t) = Some i"
      by (cases "snd t") (simp_all add: is_verify_timer_def timer_row_def)
    with 1 have "filter (\<lambda>t. timer_row (snd t) = Some i) (timers w) \<noteq> []"
      by (auto simp: filter_empty_conv)
    then show ?thesis by (simp add: in_flight_def)
  next
    case 2
    then have "filter (\<lambda>f. fetch_row f = i) (fetches w) \<noteq> []"
      by (force simp: filter_empty_conv fetch_row_def)
    then show ?thesis by (simp add: in_flight_def)
  qed
qed

lemma reachable_inv:
  "DOMContentLoaded p = Some w0 \<Longrightarrow> run evs w0 = Some w \<Longrightarrow> widget_inv w"
  by (blast intro: widget_inv_run widget_inv_init)

lemma record_click_pending:
  "record_pending (record_click i w) i" "recordBtn (rows (record_click i w) ! i) = Some True" if "i < length (rows w)"
  using that by (simp_all add: record_pending_def record_click_def Let_def is_record_timer_def)

lemma verify_click_pending:
  "verify_pending (verify_click i w) i" "verifyBtn (rows (verify_click i w) ! i) = Some True" if "i < length (rows w)"
  using that by (simp_all add: verify_pending_def verify_click_def Let_def is_verify_timer_def)

lemma settled_step:
  assumes "settled w i" and "step ev w = Some w'"
  shows "settled w' i"
proof -
  from assms(1) have zero: "in_flight w i = 0" and lock: "row_locked w i"
    by (simp_all add: settled_def)
  from assms(2) have live: "\<not> reloaded w" by (simp add: step_def split: if_splits)
  show ?thesis
  proof (cases ev)
    case ClickTest
    with assms(2) live have "w' = testBtn_click w" by (simp add: step_def split: if_splits)
    then have "in_flight w' i = in_flight w i" and "rows w' = rows w"
      by (simp_all add: in_flight_def testBtn_click_def timer_row_def)
    with zero lock show ?thesis by (simp add: settled_def row_locked_def)
  next
    case (ClickRecord j)
    with assms(2) live have w': "w' = record_click j w"
      and en: "enabled (recordBtn (rows w ! j))"
      by (simp_all add: step_def split: if_splits)
    from en lock have "i \<noteq> j" by (auto simp: row_locked_def)
    with w' zero lock show ?thesis
      by (simp add: settled_def in_flight_record_click row_locked_record_click_other)
  next
    case (ClickVerify j)
    with assms(2) live have w': "w' = verify_click j w"
      and en: "enabled (verifyBtn (rows w ! j))"
      by (simp_all add: step_def split: if_splits)
    from en lock have "i \<noteq> j" by (auto simp: row_locked_def)
    with w' zero lock show ?thesis
      by (simp add: settled_def in_flight_verify_click row_locked_verify_click_other)
  next
    case ClickElsewhere
    with assms live show ?thesis by (simp add: step_def)
  next
    case (Timeout k)
    with assms(2) live have k: "k < length (timers w)"
      and w': "w' = run_timer (snd (timers w ! k)) (w\<lparr>timers := remove_nth k (timers w)\<rparr>)"
      by (simp_all add: step_def split: if_splits)
    have locked: "row_locked w' i" using w' lock by (simp add: row_locked_def)
    show ?thesis
    proof (cases "snd (timers w ! k) = Reload")
      case True
      with w' locked show ?thesis by (simp add: settled_def in_flight_def)
    next
      case False
      from zero k in_flight_pos_timer [of k w i]
      have "timer_row (snd (timers w ! k)) \<noteq> Some i" by auto
      with w' False k zero have "in_flight w' i = 0"
        by (simp add: in_flight_run_timer in_flight_drop_timer)
      with locked show ?thesis by (simp add: settled_def)
    qed
  next
    case (Response k out)
    with assms(2) live have k: "k < length (fetches w)"
      and w': "w' = run_fetch (fetches w ! k) out (w\<lparr>fetches := remove_nth k (fetches w)\<rparr>)"
      by (simp_all add: step_def split: if_splits)
    from zero k in_flight_pos_fetch [of k w i]
    have other: "i \<noteq> fetch_row (fetches w ! k)" by auto
    with w' k zero have "in_flight w' i = 0"
      by (simp add: in_flight_run_fetch in_flight_drop_fetch)
    moreover have "row_locked w' i"
      using w' lock other_row_run_fetch [OF other, of out "w\<lparr>fetches := remove_nth k (fetches w)\<rparr>"]
      by (simp add: row_locked_def)
    ultimately show ?thesis by (simp add: settled_def)
  qed
qed

lemma settled_run: "settled w i \<Longrightarrow> run evs w = Some w' \<Longrightarrow> settled w' i"
proof (induction evs arbitrary: w)
  case Nil
  then show ?case by simp
next
  case (Cons ev evs)
  then show ?case by (auto split: option.splits dest: settled_step)
qed

lemma row_locked_verify_success:
  assumes "i < length (rows w)" and "data_success d"
  shows "row_locked (verify_done i (Parsed d) w) i"
  using assms
  by (cases "recordBtn (rows w ! i)")
     (simp_all add: verify_done_def Let_def row_locked_def enabled_def split: sum.splits)

lemma nth_list_update_total:
  "xs[j := y] ! i = (if i = j \<and> j < length xs then y else xs ! i)"
  by (cases "j < length xs") (simp_all add: list_update_beyond not_less)

text \<open>The steps that can turn the verify button of a row on.\<close>

lemma enabled_verify_record_click:
  "enabled (verifyBtn (rows (record_click j w) ! i)) \<Longrightarrow> enabled (verifyBtn (rows w ! i))"
  by (cases "verifyBtn (rows w ! j)")
     (simp_all add: record_click_def Let_def enabled_def nth_list_update_total split: if_splits)

lemma enabled_verify_verify_click:
  "enabled (verifyBtn (rows (verify_click j w) ! i)) \<Longrightarrow> enabled (verifyBtn (rows w ! i))"
  by (simp add: verify_click_def Let_def enabled_def nth_list_update_total split: if_splits)

lemma enabled_verify_verify_done:
  "enabled (verifyBtn (rows (verify_done j out w) ! i)) \<Longrightarrow> enabled (verifyBtn (rows w ! i))"
  by (cases out)
     (auto simp: verify_done_def Let_def enabled_def nth_list_update_total split: sum.splits if_splits)

lemma enabled_verify_record_done:
  assumes "enabled (verifyBtn (rows (record_done j out w) ! i))"
    and "\<not> enabled (verifyBtn (rows w ! i))"
  shows "i = j \<and> (\<exists>d. out = Parsed d \<and> data_success d)"
  using assms
  by (cases out)
     (auto simp: record_done_def enabled_def nth_list_update_total split: if_splits)

lemma sample_record_click:
  "run [ClickRecord 0] sample_widget = Some (record_click 0 sample_widget)"
  by (simp add: step_def sample_widget_def sample_rows_def enabled_def)

subsection \<open>The run of the sample page\<close>

lemmas sample_eval =
  step_def record_click_def record_send_def record_done_def verify_click_def verify_send_def
  verify_done_def update_row_def post_request_def formdata_value_def data_success_def
  status_text_def js_or_def remove_nth_def enabled_def Let_def table_rows_def
  sample_widget_def sample_rows_def sample_recorded_def sample_verified_def
  is_space_def getCookie_def match_here_def value_group_def

lemma sample_labels:
  "toLowerCase (trim ''VERIFIED'') = ''verified''"
  "toLowerCase (trim ''Verified'') = ''verified''"
  "toLowerCase (trim ''Recorded'') \<noteq> ''verified''"
  "toLowerCase (trim ''Pending'') \<noteq> ''verified''"
  by code_simp+

lemma sample_after_send_eq:
  "sample_after_send =
     sample_widget
       \<lparr> rows := [(sample_rows ! 0)\<lparr> actionStatus := Some '' Recording...'', recordBtn := Some True \<rparr>,
                  sample_rows ! 1],
         fetches := [RecordResp 0],
         requests := [post_request sample_widget ''record_fingerprint'' (Some ''42'') (Some ''trainee'')] \<rparr>"
  unfolding sample_after_send_def by (simp add: sample_eval)

lemma sample_after_record_eq:
  "sample_after_record =
     sample_widget
       \<lparr> rows := [(sample_rows ! 0)\<lparr> actionStatus := Some '' Fingerprint recorded'',
                                      ekyc_status := Some ''Recorded'',
                                      recordBtn := Some True, verifyBtn := Some False \<rparr>,
                  sample_rows ! 1],
         requests := [post_request sample_widget ''record_fingerprint'' (Some ''42'') (Some ''trainee'')] \<rparr>"
  unfolding sample_after_record_def sample_after_send_eq by (simp add: sample_eval)

lemma sample_before_verified_eq:
  "sample_before_verified =
     sample_widget
       \<lparr> rows := [(sample_rows ! 0)\<lparr> actionStatus := Some '' Verifying...'',
                                      ekyc_status := Some ''Recorded'',
                                      recordBtn := Some True, verifyBtn := Some True \<rparr>,
                  sample_rows ! 1],
         fetches := [VerifyResp 0],
         requests := [post_request sample_widget ''record_fingerprint'' (Some ''42'') (Some ''trainee''),
                      post_request sample_widget ''verify_ekyc'' (Some ''42'') (Some ''trainee'')] \<rparr>"
  unfolding sample_before_verified_def sample_after_record_eq by (simp add: sample_eval)

lemma sample_after_verified_eq:
  "sample_after_verified =
     sample_widget
       \<lparr> rows := [(sample_rows ! 0)\<lparr> actionStatus := Some '' Verified'',
                                      ekyc_status := Some ''VERIFIED'',
                                      recordBtn := Some True, verifyBtn := Some True \<rparr>,
                  sample_rows ! 1],
         doneMsg := Some ''block'',
         timers := [(900, Reload)],
         requests := [post_request sample_widget ''record_fingerprint'' (Some ''42'') (Some ''trainee''),
                      post_request sample_widget ''verify_ekyc'' (Some ''42'') (Some ''trainee'')] \<rparr>"
  unfolding sample_after_verified_def sample_before_verified_eq
  by (simp add: sample_eval sample_labels)

lemma sample_run_send: "run [ClickRecord 0, Timeout 0] sample_widget = Some sample_after_send"
  unfolding sample_after_send_def by (simp add: sample_eval)

lemma sample_step_record:
  "step (Response 0 (Parsed sample_recorded)) sample_after_send = Some sample_after_record"
  unfolding sample_after_record_def sample_after_send_eq by (simp add: sample_eval)

lemma sample_run_verify:
  "run [ClickVerify 0, Timeout 0] sample_after_record = Some sample_before_verified"
  unfolding sample_before_verified_def sample_after_record_eq by (simp add: sample_eval)

lemma sample_step_verified:
  "step (Response 0 (Parsed sample_verified)) sample_before_verified = Some sample_after_verified"
  unfolding sample_after_verified_def sample_before_verified_eq
  by (simp add: sample_eval sample_labels)

lemma sample_step_reload: "run [Timeout 0] sample_after_verified = Some sample_reloaded"
  unfolding sample_reloaded_def sample_after_verified_eq by (simp add: sample_eval)

lemma run_append:
  "run (evs @ evs') w = (case run evs w of None \<Rightarrow> None | Some w' \<Rightarrow> run evs' w')"
  by (induction evs arbitrary: w) (simp_all split: option.splits)

lemma sample_run_before_verified:
  "run [ClickRecord 0, Timeout 0, Response 0 (Parsed sample_recorded), ClickVerify 0, Timeout 0]
     sample_widget = Some sample_before_verified"
proof -
  have "run ([ClickRecord 0, Timeout 0] @ [Response 0 (Parsed sample_recorded)] @ [ClickVerify 0, Timeout 0])
     sample_widget = run ([Response 0 (Parsed sample_recorded)] @ [ClickVerify 0, Timeout 0]) sample_after_send"
    by (simp only: run_append [of "[ClickRecord 0, Timeout 0]"] sample_run_send option.case)
  also have "\<dots> = run [ClickVerify 0, Timeout 0] sample_after_record"
    by (simp only: append_Cons append_Nil run.simps(2) [of "Response 0 (Parsed sample_recorded)"]
        sample_step_record option.case)
  finally show ?thesis by (simp only: append_Cons append_Nil sample_run_verify)
qed

subsection \<open>Answers reach a live widget and a locked row\<close>

lemma reloaded_run_timer: "reloaded (run_timer t w) = (t = Reload \<or> reloaded w)"
  by (cases t) (simp_all add: testBtn_timeout_def record_send_def verify_send_def)

lemma step_reloaded:
  assumes "step ev w = Some w'" and "reloaded w'"
  shows "timers w' = [] \<and> fetches w' = []"
proof -
  from assms(1) have live: "\<not> reloaded w" by (simp add: step_def split: if_splits)
  show ?thesis
  proof (cases ev)
    case (Timeout k)
    with assms live have "snd (timers w ! k) = Reload"
      by (auto simp: step_def reloaded_run_timer split: if_splits)
    with Timeout assms(1) live show ?thesis by (auto simp: step_def split: if_splits)
  qed (use assms live in \<open>auto simp: step_def testBtn_click_def record_click_def verify_click_def
        Let_def split: if_splits\<close>)
qed

lemma run_reloaded:
  "run evs w0 = Some w \<Longrightarrow> \<not> reloaded w0 \<Longrightarrow> reloaded w \<Longrightarrow> timers w = [] \<and> fetches w = []"
proof (induction evs arbitrary: w0)
  case Nil
  then show ?case by simp
next
  case (Cons ev evs)
  then obtain w1 where s: "step ev w0 = Some w1" and r: "run evs w1 = Some w"
    by (auto split: option.splits)
  show ?case
  proof (cases "reloaded w1")
    case True
    with r have "evs = []" by (cases evs) (simp_all add: step_def)
    with r have "w = w1" by simp
    with s True show ?thesis by (simp add: step_reloaded)
  next
    case False
    with Cons.IH [OF r] Cons.prems(3) show ?thesis by simp
  qed
qed

lemma reachable_live:
  assumes "DOMContentLoaded p = Some w0" and "run evs w0 = Some w"
    and "k < length (fetches w)"
  shows "\<not> reloaded w"
proof
  assume "reloaded w"
  moreover from assms(1) have "\<not> reloaded w0"
    by (auto simp: DOMContentLoaded_def split: option.splits)
  ultimately have "fetches w = []" using assms(2) by (simp add: run_reloaded)
  with assms(3) show False by simp
qed

text \<open>A request that is being answered belongs to a locked row.\<close>

lemma reachable_locked:
  assumes "DOMContentLoaded p = Some w0" and "run evs w0 = Some w"
    and "k < length (fetches w)" and "fetch_row (fetches w ! k) = i"
  shows "row_locked w i"
proof -
  from assms(1,2) have "widget_inv w" by (rule reachable_inv)
  moreover from assms(3,4) have "0 < in_flight w i" by (rule in_flight_pos_fetch)
  ultimately show "row_locked w i" by (simp add: widget_inv_def)
qed

lemma reachable_answer:
  assumes "DOMContentLoaded p = Some w0" and "run evs w0 = Some w"
    and "k < length (fetches w)"
  shows "step (Response k out) w =
           Some (run_fetch (fetches w ! k) out (w\<lparr>fetches := remove_nth k (fetches w)\<rparr>))"
proof -
  from assms have "\<not> reloaded w" by (rule reachable_live)
  with assms(3) show ?thesis by (simp add: step_def)
qed

lemma status_text_cases:
  "status_text d fallback =
     (if truthy (get_field d ''status_display'') then to_textContent (get_field d ''status_display'')
      else if truthy (get_field d ''status'') then to_textContent (get_field d ''status'')
      else fallback)"
  by (simp add: status_text_def js_or_def)

lemma every_verified_no_throw:
  "\<forall>r \<in> set rs. ekyc_status r \<noteq> None \<Longrightarrow> every_verified rs \<noteq> Inl e"
  by (induction rs) (auto split: option.splits)

lemma table_rows_update_labels:
  assumes "\<forall>r \<in> set (table_rows w). ekyc_status r \<noteq> None"
    and "\<And>r. in_ekyc_table (f r) = in_ekyc_table r"
    and "\<And>r. ekyc_status r \<noteq> None \<Longrightarrow> ekyc_status (f r) \<noteq> None"
  shows "\<forall>r \<in> set (table_rows (update_row i f w)). ekyc_status r \<noteq> None"
proof (cases "i < length (rows w)")
  case False
  then have "(rows w)[i := f (rows w ! i)] = rows w" by (simp add: list_update_beyond)
  with assms(1) show ?thesis by (simp add: table_rows_def)
next
  case True
  show ?thesis
  proof
    fix r
    assume "r \<in> set (table_rows (update_row i f w))"
    then have mem: "r \<in> set ((rows w)[i := f (rows w ! i)])" and tab: "in_ekyc_table r"
      by (simp_all add: table_rows_def)
    from mem have "r = f (rows w ! i) \<or> r \<in> set (rows w)"
      using set_update_subset_insert [of "rows w" i "f (rows w ! i)"] by auto
    then show "ekyc_status r \<noteq> None"
    proof
      assume r: "r = f (rows w ! i)"
      with tab assms(2) have "in_ekyc_table (rows w ! i)" by simp
      with True have "rows w ! i \<in> set (table_rows w)" by (simp add: table_rows_def)
      with assms(1) have "ekyc_status (rows w ! i) \<noteq> None" by blast
      with r assms(3) show ?thesis by simp
    next
      assume "r \<in> set (rows w)"
      with tab assms(1) show ?thesis by (simp add: table_rows_def)
    qed
  qed
qed

lemma sample_step_error:
  "step (Response 0 Threw) sample_after_send = Some sample_record_error"
  unfolding sample_record_error_def sample_after_send_eq by (simp add: sample_eval)

lemma sample_step_failed:
  "step (Response 0 (Parsed sample_refused)) sample_after_send = Some sample_record_failed"
  unfolding sample_record_failed_def sample_after_send_eq by (simp add: sample_eval)

subsection \<open>The scan of the participants table\<close>

lemma map_view_update_row:
  assumes "\<And>r. scan_view (f r) = scan_view r"
  shows "map scan_view (rows (update_row i f w)) = map scan_view (rows w)"
proof (cases "i < length (rows w)")
  case True
  have "map scan_view ((rows w)[i := f (rows w ! i)]) = (map scan_view (rows w))[i := scan_view (f (rows w ! i))]"
    by (rule map_update)
  also have "\<dots> = (map scan_view (rows w))[i := map scan_view (rows w) ! i]"
    using True assms by simp
  also have "\<dots> = map scan_view (rows w)" by (rule list_update_id)
  finally show ?thesis by simp
next
  case False
  then show ?thesis by (simp add: list_update_beyond)
qed

lemma labels_table_rows:
  "map ekyc_status (filter in_ekyc_table rs) = map snd (filter fst (map scan_view rs))"
  by (induction rs) (simp_all add: scan_view_def)

lemma table_labels_cong:
  "map scan_view (rows w') = map scan_view (rows w) \<Longrightarrow>
   map ekyc_status (table_rows w') = map ekyc_status (table_rows w)"
  by (simp add: table_rows_def labels_table_rows)

lemma every_verified_labels_cong:
  "map ekyc_status rs' = map ekyc_status rs \<Longrightarrow> every_verified rs' = every_verified rs"
proof (induction rs arbitrary: rs')
  case Nil
  then show ?case by simp
next
  case (Cons r rs)
  then obtain r' rs'' where rs': "rs' = r' # rs''" by (cases rs') auto
  with Cons.prems have hd: "ekyc_status r' = ekyc_status r"
    and tl: "map ekyc_status rs'' = map ekyc_status rs" by simp_all
  from tl have "every_verified rs'' = every_verified rs" by (rule Cons.IH)
  with hd rs' show ?case by (cases "ekyc_status r") simp_all
qed

lemma every_verified_True_iff:
  "every_verified rs = Inr True \<longleftrightarrow> (\<forall>r \<in> set rs. reads_verified r)"
  by (induction rs) (auto simp: reads_verified_def split: option.splits)

lemma every_verified_throws_iff:
  "every_verified rs = Inl TypeError \<longleftrightarrow>
   (\<exists>n < length rs. ekyc_status (rs ! n) = None \<and> (\<forall>m < n. reads_verified (rs ! m)))"
proof (induction rs)
  case Nil
  then show ?case by simp
next
  case (Cons r rs)
  show ?case
  proof (cases "ekyc_status r")
    case None
    then have "ekyc_status ((r # rs) ! 0) = None \<and> (\<forall>m < 0. reads_verified ((r # rs) ! m))"
      by simp
    then have "\<exists>n < length (r # rs). ekyc_status ((r # rs) ! n) = None \<and>
        (\<forall>m < n. reads_verified ((r # rs) ! m))" by (intro exI [of _ 0]) simp
    with None show ?thesis by simp
  next
    case (Some t)
    show ?thesis
    proof (cases "toLowerCase (trim t) = ''verified''")
      case True
      with Some have rv: "reads_verified r" by (simp add: reads_verified_def)
      have "(\<exists>n < length (r # rs). ekyc_status ((r # rs) ! n) = None \<and>
              (\<forall>m < n. reads_verified ((r # rs) ! m))) \<longleftrightarrow>
            (\<exists>n < length rs. ekyc_status (rs ! n) = None \<and> (\<forall>m < n. reads_verified (rs ! m)))"
        (is "?L \<longleftrightarrow> ?R")
      proof
        assume ?L
        then obtain n where n: "n < length (r # rs)" "ekyc_status ((r # rs) ! n) = None"
          "\<forall>m < n. reads_verified ((r # rs) ! m)" by blast
        with Some obtain n' where n': "n = Suc n'" by (cases n) auto
        with n have "n' < length rs" "ekyc_status (rs ! n') = None" by simp_all
        moreover have "\<forall>m < n'. reads_verified (rs ! m)"
        proof (intro allI impI)
          fix m assume "m < n'"
          then have "Suc m < n" using n' by simp
          with n(3) have "reads_verified ((r # rs) ! Suc m)" by blast
          then show "reads_verified (rs ! m)" by simp
        qed
        ultimately show ?R by blast
      next
        assume ?R
        then obtain n where n: "n < length rs" "ekyc_status (rs ! n) = None"
          "\<forall>m < n. reads_verified (rs ! m)" by blast
        have "\<forall>m < Suc n. reads_verified ((r # rs) ! m)"
        proof (intro allI impI)
          fix m assume "m < Suc n"
          then show "reads_verified ((r # rs) ! m)" using rv n(3) by (cases m) auto
        qed
        with n(1,2) show ?L by (intro exI [of _ "Suc n"]) simp
      qed
      with Cons.IH Some True show ?thesis by simp
    next
      case False
      with Some have nrv: "\<not> reads_verified r" by (simp add: reads_verified_def)
      have "\<not> (\<exists>n < length (r # rs). ekyc_status ((r # rs) ! n) = None \<and>
              (\<forall>m < n. reads_verified ((r # rs) ! m)))"
      proof
        assume "\<exists>n < length (r # rs). ekyc_status ((r # rs) ! n) = None \<and>
              (\<forall>m < n. reads_verified ((r # rs) ! m))"
        then obtain n where n: "ekyc_status ((r # rs) ! n) = None"
          "\<forall>m < n. reads_verified ((r # rs) ! m)" by blast
        with Some have "0 < n" by (cases n) auto
        with n(2) have "reads_verified ((r # rs) ! 0)" by blast
        with nrv show False by simp
      qed
      with Some False show ?thesis by simp
    qed
  qed
qed

lemma verify_done_success:
  assumes "data_success d"
  shows "verify_done i (Parsed d) w =
     (case every_verified (table_rows (update_row i
              (\<lambda>r. r\<lparr> ekyc_status := map_option (\<lambda>_. status_text d ''Verified'') (ekyc_status r),
                       actionStatus := map_option (\<lambda>_. '' Verified'') (actionStatus r),
                       recordBtn := map_option (\<lambda>_. True) (recordBtn r),
                       verifyBtn := Some True \<rparr>) w)) of
        Inl e \<Rightarrow>
          update_row i (\<lambda>r. r\<lparr> actionStatus := map_option (\<lambda>_. '' Error'') (actionStatus r) \<rparr>)
            (update_row i
              (\<lambda>r. r\<lparr> ekyc_status := map_option (\<lambda>_. status_text d ''Verified'') (ekyc_status r),
                       actionStatus := map_option (\<lambda>_. '' Verified'') (actionStatus r),
                       recordBtn := map_option (\<lambda>_. True) (recordBtn r),
                       verifyBtn := Some True \<rparr>) w)
      | Inr b \<Rightarrow>
          if b
          then (update_row i
              (\<lambda>r. r\<lparr> ekyc_status := map_option (\<lambda>_. status_text d ''Verified'') (ekyc_status r),
                       actionStatus := map_option (\<lambda>_. '' Verified'') (actionStatus r),
                       recordBtn := map_option (\<lambda>_. True) (recordBtn r),
                       verifyBtn := Some True \<rparr>) w)
                 \<lparr> doneMsg := map_option (\<lambda>_. ''block'') (doneMsg w),
                    timers := timers w @ [(900, Reload)] \<rparr>
          else update_row i
              (\<lambda>r. r\<lparr> ekyc_status := map_option (\<lambda>_. status_text d ''Verified'') (ekyc_status r),
                       actionStatus := map_option (\<lambda>_. '' Verified'') (actionStatus r),
                       recordBtn := map_option (\<lambda>_. True) (recordBtn r),
                       verifyBtn := Some True \<rparr>) w)"
  using assms by (simp add: verify_done_def Let_def split: sum.splits)

lemma verify_done_scan:
  assumes "data_success d"
  shows "every_verified (table_rows (verify_done i (Parsed d) w)) =
     every_verified (table_rows (update_row i
              (\<lambda>r. r\<lparr> ekyc_status := map_option (\<lambda>_. status_text d ''Verified'') (ekyc_status r),
                       actionStatus := map_option (\<lambda>_. '' Verified'') (actionStatus r),
                       recordBtn := map_option (\<lambda>_. True) (recordBtn r),
                       verifyBtn := Some True \<rparr>) w))"
    (is "every_verified (table_rows ?w') = every_verified (table_rows ?w1)")
proof -
  have "map scan_view (rows ?w') = map scan_view (rows ?w1)"
  proof (cases "every_verified (table_rows ?w1)")
    case (Inl e)
    then have "?w' = update_row i (\<lambda>r. r\<lparr> actionStatus := map_option (\<lambda>_. '' Error'') (actionStatus r) \<rparr>) ?w1"
      by (simp add: verify_done_success [OF assms])
    moreover have "map scan_view (rows (update_row i
        (\<lambda>r. r\<lparr> actionStatus := map_option (\<lambda>_. '' Error'') (actionStatus r) \<rparr>) ?w1)) =
        map scan_view (rows ?w1)"
      by (rule map_view_update_row) (simp add: scan_view_def)
    ultimately show ?thesis by (simp only:)
  next
    case (Inr b)
    then show ?thesis by (simp add: verify_done_success [OF assms] update_row_def)
  qed
  then show ?thesis by (intro every_verified_labels_cong table_labels_cong)
qed

lemma sample_labels2:
  "toLowerCase (trim ''On hold'') \<noteq> ''verified''"
  by code_simp

lemma sample_verified_rows:
  "rows (verify_done 0 (Parsed sample_verified) sample_before_verified) =
     [(sample_rows ! 0)\<lparr> actionStatus := Some '' Verified'', ekyc_status := Some ''VERIFIED'',
                          recordBtn := Some True, verifyBtn := Some True \<rparr>,
      sample_rows ! 1]"
  unfolding sample_before_verified_eq by (simp add: sample_eval sample_labels)

lemma sample_held_rows:
  "rows (verify_done 0 (Parsed sample_held) sample_before_verified) =
     [(sample_rows ! 0)\<lparr> actionStatus := Some '' Verified'', ekyc_status := Some ''On hold'',
                          recordBtn := Some True, verifyBtn := Some True \<rparr>,
      sample_rows ! 1]"
  unfolding sample_before_verified_eq
  by (simp add: sample_eval sample_labels sample_labels2 sample_held_def)

lemma sample_unlabelled_rows:
  "rows (verify_done 0 (Parsed sample_verified) sample_unlabelled) =
     [(sample_rows ! 0)\<lparr> actionStatus := Some '' Error'', ekyc_status := Some ''VERIFIED'',
                          recordBtn := Some True, verifyBtn := Some True \<rparr>,
      sample_rows ! 1,
      \<lparr> in_ekyc_table = True, participantId = Some ''44'', participantRole = Some ''trainee'',
        actionStatus = Some [], ekyc_status = None,
        recordBtn = Some False, verifyBtn = Some True \<rparr>]"
  unfolding sample_unlabelled_def sample_before_verified_eq
  by (simp add: sample_eval sample_labels)

subsection \<open>One action, one request\<close>

lemma requests_record_done [simp]: "requests (record_done i out w) = requests w"
  by (cases out) (simp_all add: record_done_def)

lemma requests_verify_done [simp]: "requests (verify_done i out w) = requests w"
  by (cases out) (simp_all add: verify_done_def Let_def split: sum.splits)

lemma remove_nth_last [simp]: "remove_nth (length xs) (xs @ [x]) = xs"
  by (simp add: remove_nth_def)

lemma name_ok_csrftoken: "name_ok ''csrftoken''"
  by (simp add: name_ok_def is_space_def)

lemma post_request_jar:
  assumes "cookie w = document_cookie jar" and "jar_ok jar" and "distinct (map fst jar)"
  shows "post_request w act pid role =
     \<lparr> url = endpoint w, http_method = ''POST'',
       headers = [(''X-Requested-With'', ''XMLHttpRequest''),
                  (''X-CSRFToken'', case map_of jar ''csrftoken'' of None \<Rightarrow> [] | Some v \<Rightarrow> v)],
       body = [(''action'', act), (''participant_id'', formdata_value pid),
               (''participant_role'', formdata_value role)] \<rparr>"
  using getCookie_jar [OF name_ok_csrftoken assms(2,3)] assms(1)
  by (simp add: post_request_def)

lemma record_action_run:
  assumes "\<not> reloaded w" and "i < length (rows w)" and "enabled (recordBtn (rows w ! i))"
  shows "\<exists>w'. run [ClickRecord i, Timeout (length (timers w)), Response (length (fetches w)) out] w
                 = Some w' \<and>
           requests w' = requests w @
             [post_request w ''record_fingerprint'' (participantId (rows w ! i))
                (participantRole (rows w ! i))]"
  using assms
  by (simp add: step_def record_click_def Let_def update_row_def record_send_def
      post_request_def nth_append)

lemma verify_action_run:
  assumes "\<not> reloaded w" and "i < length (rows w)" and "enabled (verifyBtn (rows w ! i))"
  shows "\<exists>w'. run [ClickVerify i, Timeout (length (timers w)), Response (length (fetches w)) out] w
                 = Some w' \<and>
           requests w' = requests w @
             [post_request w ''verify_ekyc'' (participantId (rows w ! i))
                (participantRole (rows w ! i))]"
  using assms
  by (simp add: step_def verify_click_def Let_def update_row_def verify_send_def
      post_request_def nth_append)

lemma sample_jar_ok:
  "cookie sample_widget = document_cookie sample_jar" "jar_ok sample_jar"
  "distinct (map fst sample_jar)"
  by (simp_all add: sample_widget_def sample_jar_def jar_ok_def name_ok_def value_ok_def
      is_space_def)

lemma sample_run_record:
  "run [ClickRecord 0, Timeout 0, Response 0 (Parsed sample_recorded)] sample_widget
     = Some sample_after_record"
proof -
  have "run ([ClickRecord 0, Timeout 0] @ [Response 0 (Parsed sample_recorded)]) sample_widget
      = run [Response 0 (Parsed sample_recorded)] sample_after_send"
    by (simp only: run_append [of "[ClickRecord 0, Timeout 0]"] sample_run_send option.case)
  also have "\<dots> = Some sample_after_record"
    by (simp only: run.simps sample_step_record option.case)
  finally show ?thesis by (simp only: append_Cons append_Nil)
qed

lemma sample_run_verified:
  "run [ClickVerify 0, Timeout 0, Response 0 (Parsed sample_verified)] sample_after_record
     = Some sample_after_verified"
proof -
  have "run ([ClickVerify 0, Timeout 0] @ [Response 0 (Parsed sample_verified)]) sample_after_record
      = run [Response 0 (Parsed sample_verified)] sample_before_verified"
    by (simp only: run_append [of "[ClickVerify 0, Timeout 0]"] sample_run_verify option.case)
  also have "\<dots> = Some sample_after_verified"
    by (simp only: run.simps sample_step_verified option.case)
  finally show ?thesis by (simp only: append_Cons append_Nil)
qed

subsection \<open>The first enabled record button\<close>

lemma first_enabled_record_Some:
  "first_enabled_record rs = Some j \<Longrightarrow>
   j < length rs \<and> enabled (recordBtn (rs ! j)) \<and> (\<forall>j' < j. \<not> enabled (recordBtn (rs ! j')))"
proof (induction rs arbitrary: j)
  case Nil
  then show ?case by simp
next
  case (Cons r rs)
  show ?case
  proof (cases "enabled (recordBtn r)")
    case True
    with Cons.prems show ?thesis by simp
  next
    case False
    with Cons.prems obtain j0 where j: "j = Suc j0" and "first_enabled_record rs = Some j0"
      by auto
    with Cons.IH have "j0 < length rs \<and> enabled (recordBtn (rs ! j0)) \<and>
        (\<forall>j' < j0. \<not> enabled (recordBtn (rs ! j')))" by simp
    with False j show ?thesis by (auto simp: less_Suc_eq_0_disj)
  qed
qed

lemma first_enabled_record_None:
  "first_enabled_record rs = None \<Longrightarrow> \<forall>j < length rs. \<not> enabled (recordBtn (rs ! j))"
  by (induction rs) (auto simp: less_Suc_eq_0_disj split: if_splits)

lemma first_enabled_record_least:
  assumes "j < length rs" and "enabled (recordBtn (rs ! j))"
    and "\<forall>j' < j. \<not> enabled (recordBtn (rs ! j'))"
  shows "first_enabled_record rs = Some j"
proof (cases "first_enabled_record rs")
  case None
  with assms(1,2) first_enabled_record_None [of rs] show ?thesis by blast
next
  case (Some j0)
  from first_enabled_record_Some [OF Some] assms have "\<not> j0 < j" "\<not> j < j0" by blast+
  then have "j0 = j" by simp
  with Some show ?thesis by simp
qed

lemma sample_click_test: "step ClickTest sample_widget = Some (testBtn_click sample_widget)"
  by (simp add: step_def sample_widget_def enabled_def)

lemma sample_tested_eq:
  "step (Timeout 0) (testBtn_click sample_widget) = Some sample_tested"
  unfolding sample_tested_def
  by (simp add: step_def sample_widget_def enabled_def testBtn_click_def remove_nth_def)

section \<open>The claims\<close>

subsection \<open>C1: verify waits for record, and a verified row is terminal\<close>

text \<open>
  C1: the verify button of a row is never enabled before the record action of that row
  has completed with a successful response (the only transition that enables verify is
  a record response with \<^verbatim>\<open>success\<close> truthy), and once a verify action of that row
  succeeds, both buttons of the row are disabled and no later transition of the widget
  re-enables either of them.

  For every step \<open>ev\<close> from a state the widget reaches: when the verify button of row
  \<open>i\<close> is not enabled before the step and enabled after it, the step is the answer
  to a record request of row \<open>i\<close> with \<^verbatim>\<open>success\<close> truthy; and when the step is the
  answer to a verify request of row \<open>i\<close> with \<^verbatim>\<open>success\<close> truthy, then after it, and
  after every sequence of further events, neither button of row \<open>i\<close> is enabled.
\<close>

theorem verify_gate_and_terminal_row:
  assumes "DOMContentLoaded p = Some w0" and "run evs w0 = Some w" and "step ev w = Some w'"
  shows "(\<not> enabled (verifyBtn (rows w ! i)) \<and> enabled (verifyBtn (rows w' ! i)) \<longrightarrow>
            (\<exists>k d. ev = Response k (Parsed d) \<and> k < length (fetches w) \<and>
                   fetches w ! k = RecordResp i \<and> data_success d)) \<and>
         ((\<exists>k d. ev = Response k (Parsed d) \<and> k < length (fetches w) \<and>
                 fetches w ! k = VerifyResp i \<and> data_success d) \<longrightarrow>
            (\<forall>evs' w''. run evs' w' = Some w'' \<longrightarrow>
               \<not> enabled (recordBtn (rows w'' ! i)) \<and> \<not> enabled (verifyBtn (rows w'' ! i))))"
proof (intro conjI impI)
  assume a: "\<not> enabled (verifyBtn (rows w ! i)) \<and> enabled (verifyBtn (rows w' ! i))"
  from assms(3) have live: "\<not> reloaded w" by (simp add: step_def split: if_splits)
  show "\<exists>k d. ev = Response k (Parsed d) \<and> k < length (fetches w) \<and>
          fetches w ! k = RecordResp i \<and> data_success d"
  proof (cases ev)
    case ClickTest
    with assms(3) live a show ?thesis
      by (auto simp: step_def testBtn_click_def split: if_splits)
  next
    case (ClickRecord j)
    with assms(3) live a enabled_verify_record_click [of j w i] show ?thesis
      by (auto simp: step_def split: if_splits)
  next
    case (ClickVerify j)
    with assms(3) live a enabled_verify_verify_click [of j w i] show ?thesis
      by (auto simp: step_def split: if_splits)
  next
    case ClickElsewhere
    with assms(3) live a show ?thesis by (auto simp: step_def)
  next
    case (Timeout k)
    with assms(3) live a show ?thesis by (auto simp: step_def split: if_splits)
  next
    case (Response k out)
    with assms(3) live have k: "k < length (fetches w)"
      and w': "w' = run_fetch (fetches w ! k) out (w\<lparr>fetches := remove_nth k (fetches w)\<rparr>)"
      by (simp_all add: step_def split: if_splits)
    show ?thesis
    proof (cases "fetches w ! k")
      case (RecordResp j)
      with w' a enabled_verify_record_done [of j out "w\<lparr>fetches := remove_nth k (fetches w)\<rparr>" i]
      have "i = j \<and> (\<exists>d. out = Parsed d \<and> data_success d)" by simp
      with Response k RecordResp show ?thesis by auto
    next
      case (VerifyResp j)
      with w' a enabled_verify_verify_done [of j out "w\<lparr>fetches := remove_nth k (fetches w)\<rparr>" i]
      show ?thesis by simp
    qed
  qed
next
  assume "\<exists>k d. ev = Response k (Parsed d) \<and> k < length (fetches w) \<and>
            fetches w ! k = VerifyResp i \<and> data_success d"
  then obtain k d where ev: "ev = Response k (Parsed d)" and k: "k < length (fetches w)"
    and task: "fetches w ! k = VerifyResp i" and ok: "data_success d" by blast
  from assms(1,2) have inv: "widget_inv w" by (rule reachable_inv)
  from k task have pos: "0 < in_flight w i"
    by (intro in_flight_pos_fetch [of k]) (simp_all add: fetch_row_def)
  with inv have one: "in_flight w i = 1" and lock: "row_locked w i"
    by (auto simp: widget_inv_def dest: spec [of _ i])
  from assms(3) ev k task
  have w': "w' = verify_done i (Parsed d) (w\<lparr>fetches := remove_nth k (fetches w)\<rparr>)"
    by (simp add: step_def split: if_splits)
  from lock have i: "i < length (rows (w\<lparr>fetches := remove_nth k (fetches w)\<rparr>))"
    by (simp add: row_locked_def)
  have "in_flight w' i = 0"
    using in_flight_run_fetch [of "VerifyResp i" "Parsed d" "w\<lparr>fetches := remove_nth k (fetches w)\<rparr>" i]
      in_flight_drop_fetch [OF k, of i] one task w'
    by (simp add: fetch_row_def)
  moreover have "row_locked w' i"
    unfolding w' using i ok by (rule row_locked_verify_success)
  ultimately have s: "settled w' i" by (simp add: settled_def)
  show "\<forall>evs' w''. run evs' w' = Some w'' \<longrightarrow>
          \<not> enabled (recordBtn (rows w'' ! i)) \<and> \<not> enabled (verifyBtn (rows w'' ! i))"
  proof (intro allI impI)
    fix evs' w''
    assume "run evs' w' = Some w''"
    with s have "settled w'' i" by (rule settled_run)
    then show "\<not> enabled (recordBtn (rows w'' ! i)) \<and> \<not> enabled (verifyBtn (rows w'' ! i))"
      by (simp add: settled_def row_locked_def)
  qed
qed

theorem verify_gate_and_terminal_row_witness:
  "DOMContentLoaded sample_page = Some sample_widget \<and>
   run [ClickRecord 0, Timeout 0] sample_widget = Some sample_after_send \<and>
   step (Response 0 (Parsed sample_recorded)) sample_after_send = Some sample_after_record \<and>
   \<not> enabled (verifyBtn (rows sample_after_send ! 0)) \<and>
   enabled (verifyBtn (rows sample_after_record ! 0)) \<and>
   fetches sample_after_send ! 0 = RecordResp 0 \<and> data_success sample_recorded \<and>
   run [ClickRecord 0, Timeout 0, Response 0 (Parsed sample_recorded), ClickVerify 0, Timeout 0]
     sample_widget = Some sample_before_verified \<and>
   fetches sample_before_verified ! 0 = VerifyResp 0 \<and> data_success sample_verified \<and>
   step (Response 0 (Parsed sample_verified)) sample_before_verified = Some sample_after_verified \<and>
   run [Timeout 0] sample_after_verified = Some sample_reloaded \<and>
   \<not> enabled (recordBtn (rows sample_reloaded ! 0)) \<and>
   \<not> enabled (verifyBtn (rows sample_reloaded ! 0))"
proof -
  have off: "\<not> enabled (verifyBtn (rows sample_after_send ! 0))"
    by (simp add: sample_after_send_eq sample_rows_def enabled_def)
  have on: "enabled (verifyBtn (rows sample_after_record ! 0))"
    by (simp add: sample_after_record_eq sample_rows_def enabled_def)
  from verify_gate_and_terminal_row [OF sample_init sample_run_send sample_step_record, of 0] off on
  obtain k d where "Response 0 (Parsed sample_recorded) = Response k (Parsed d)"
    and "fetches sample_after_send ! k = RecordResp 0" and "data_success d" by blast
  then have gate: "fetches sample_after_send ! 0 = RecordResp 0 \<and> data_success sample_recorded"
    by simp
  have task: "fetches sample_before_verified ! 0 = VerifyResp 0"
    and len: "0 < length (fetches sample_before_verified)"
    by (simp_all add: sample_before_verified_eq)
  have ok: "data_success sample_verified"
    by (simp add: data_success_def sample_verified_def)
  from verify_gate_and_terminal_row
    [OF sample_init sample_run_before_verified sample_step_verified, of 0] task len ok
  have "\<forall>evs' w''. run evs' sample_after_verified = Some w'' \<longrightarrow>
          \<not> enabled (recordBtn (rows w'' ! 0)) \<and> \<not> enabled (verifyBtn (rows w'' ! 0))"
    by blast
  with sample_step_reload
  have "\<not> enabled (recordBtn (rows sample_reloaded ! 0)) \<and>
        \<not> enabled (verifyBtn (rows sample_reloaded ! 0))" by blast
  with off on gate task ok sample_init sample_run_send sample_step_record
    sample_run_before_verified sample_step_verified sample_step_reload
  show ?thesis by blast
qed

subsection \<open>C2: a successful record response\<close>

text \<open>
  C2, as stated: on a record response with \<^verbatim>\<open>success\<close> truthy the status label is set to
  \<^verbatim>\<open>status_display\<close> if present, else \<^verbatim>\<open>status\<close> if present, else ``Recorded''.
  The handler evaluates \<^verbatim>\<open>data.status_display || data.status || 'Recorded'\<close>: a
  \<^verbatim>\<open>status_display\<close> that is present and empty is passed over, and the label is the
  \<^verbatim>\<open>status\<close>.
\<close>

theorem record_blank_display_counterexample:
  "get_field sample_recorded_blank ''status_display'' = Some (JStr []) \<and>
   data_success sample_recorded_blank \<and>
   ekyc_status (rows sample_after_send ! 0) = Some ''Pending'' \<and>
   ekyc_status (rows (record_done 0 (Parsed sample_recorded_blank) sample_after_send) ! 0)
     = Some ''RECORDED''"
  by (simp add: sample_after_send_eq sample_recorded_blank_def data_success_def record_done_def
      status_text_def js_or_def sample_rows_def)

text \<open>
  C2, amended: on a record response with \<^verbatim>\<open>success\<close> truthy the handler sets the status
  label of the row to \<^verbatim>\<open>status_display\<close> if that is truthy (present and not empty),
  else to \<^verbatim>\<open>status\<close> if that is truthy, else to ``Recorded''; it sets the caption to
  `` Fingerprint recorded'', enables the verify button of the row and leaves the record
  button disabled. (A write goes to an element only when the row has it.)
\<close>

theorem record_success:
  assumes "DOMContentLoaded p = Some w0" and "run evs w0 = Some w"
    and "k < length (fetches w)" and "fetches w ! k = RecordResp i" and "data_success d"
  shows "\<exists>w'. step (Response k (Parsed d)) w = Some w' \<and>
     ekyc_status (rows w' ! i) =
       map_option (\<lambda>_. if truthy (get_field d ''status_display'')
                        then to_textContent (get_field d ''status_display'')
                        else if truthy (get_field d ''status'')
                        then to_textContent (get_field d ''status'')
                        else ''Recorded'') (ekyc_status (rows w ! i)) \<and>
     actionStatus (rows w' ! i) =
       map_option (\<lambda>_. '' Fingerprint recorded'') (actionStatus (rows w ! i)) \<and>
     verifyBtn (rows w' ! i) = map_option (\<lambda>_. False) (verifyBtn (rows w ! i)) \<and>
     recordBtn (rows w' ! i) = recordBtn (rows w ! i) \<and>
     \<not> enabled (recordBtn (rows w' ! i))"
proof -
  from assms(4) have row: "fetch_row (fetches w ! k) = i" by (simp add: fetch_row_def)
  from reachable_locked [OF assms(1-3) row] reachable_answer [OF assms(1-3), of "Parsed d"] assms(4)
  have lock: "row_locked w i"
    and st: "step (Response k (Parsed d)) w =
      Some (record_done i (Parsed d) (w\<lparr>fetches := remove_nth k (fetches w)\<rparr>))"
    by simp_all
  from lock have i: "i < length (rows w)" and off: "\<not> enabled (recordBtn (rows w ! i))"
    by (simp_all add: row_locked_def)
  show ?thesis
    unfolding st using i off assms(5)
    by (simp add: record_done_def status_text_cases)
qed

theorem record_success_witness:
  "DOMContentLoaded sample_page = Some sample_widget \<and>
   run [ClickRecord 0, Timeout 0] sample_widget = Some sample_after_send \<and>
   fetches sample_after_send ! 0 = RecordResp 0 \<and> data_success sample_recorded \<and>
   step (Response 0 (Parsed sample_recorded)) sample_after_send = Some sample_after_record \<and>
   ekyc_status (rows sample_after_record ! 0) = Some ''Recorded'' \<and>
   actionStatus (rows sample_after_record ! 0) = Some '' Fingerprint recorded'' \<and>
   verifyBtn (rows sample_after_record ! 0) = Some False \<and>
   \<not> enabled (recordBtn (rows sample_after_record ! 0))"
proof -
  have len: "0 < length (fetches sample_after_send)"
    and task: "fetches sample_after_send ! 0 = RecordResp 0"
    by (simp_all add: sample_after_send_eq)
  have ok: "data_success sample_recorded"
    by (simp add: data_success_def sample_recorded_def)
  from record_success [OF sample_init sample_run_send len task ok]
  obtain w' where st: "step (Response 0 (Parsed sample_recorded)) sample_after_send = Some w'"
    and facts: "ekyc_status (rows w' ! 0) =
       map_option (\<lambda>_. if truthy (get_field sample_recorded ''status_display'')
                        then to_textContent (get_field sample_recorded ''status_display'')
                        else if truthy (get_field sample_recorded ''status'')
                        then to_textContent (get_field sample_recorded ''status'')
                        else ''Recorded'') (ekyc_status (rows sample_after_send ! 0))"
      "actionStatus (rows w' ! 0) =
         map_option (\<lambda>_. '' Fingerprint recorded'') (actionStatus (rows sample_after_send ! 0))"
      "verifyBtn (rows w' ! 0) = map_option (\<lambda>_. False) (verifyBtn (rows sample_after_send ! 0))"
      "\<not> enabled (recordBtn (rows w' ! 0))"
    by blast
  from st sample_step_record have w': "w' = sample_after_record" by simp
  from facts [unfolded w'] show ?thesis
    using sample_init sample_run_send task ok sample_step_record
    by (simp add: sample_after_send_eq sample_recorded_def sample_rows_def)
qed

subsection \<open>C3: a failed record action\<close>

text \<open>
  C3: when a record action fails, because the decoded value has \<^verbatim>\<open>success\<close> falsy or
  because the request or the decoding threw, the handler sets the caption of the row to
  `` Failed'' or `` Error'' respectively, re-enables neither button of the row and does
  not change the status label.
\<close>

theorem record_failure:
  assumes "DOMContentLoaded p = Some w0" and "run evs w0 = Some w"
    and "k < length (fetches w)" and "fetches w ! k = RecordResp i"
    and "out = Threw \<or> (\<exists>d. out = Parsed d \<and> \<not> data_success d)"
  shows "\<exists>w'. step (Response k out) w = Some w' \<and>
     actionStatus (rows w' ! i) =
       map_option (\<lambda>_. case out of Threw \<Rightarrow> '' Error'' | Parsed d \<Rightarrow> '' Failed'')
         (actionStatus (rows w ! i)) \<and>
     ekyc_status (rows w' ! i) = ekyc_status (rows w ! i) \<and>
     recordBtn (rows w' ! i) = recordBtn (rows w ! i) \<and>
     verifyBtn (rows w' ! i) = verifyBtn (rows w ! i) \<and>
     \<not> enabled (recordBtn (rows w' ! i)) \<and> \<not> enabled (verifyBtn (rows w' ! i))"
proof -
  from assms(4) have row: "fetch_row (fetches w ! k) = i" by (simp add: fetch_row_def)
  from reachable_locked [OF assms(1-3) row] reachable_answer [OF assms(1-3), of out] assms(4)
  have lock: "row_locked w i"
    and st: "step (Response k out) w =
      Some (record_done i out (w\<lparr>fetches := remove_nth k (fetches w)\<rparr>))"
    by simp_all
  from lock have i: "i < length (rows w)" and off: "\<not> enabled (recordBtn (rows w ! i))"
    "\<not> enabled (verifyBtn (rows w ! i))"
    by (simp_all add: row_locked_def)
  show ?thesis
    unfolding st using i off assms(5)
    by (auto simp: record_done_def)
qed

theorem record_failure_witness:
  "DOMContentLoaded sample_page = Some sample_widget \<and>
   run [ClickRecord 0, Timeout 0] sample_widget = Some sample_after_send \<and>
   fetches sample_after_send ! 0 = RecordResp 0 \<and> \<not> data_success sample_refused \<and>
   ekyc_status (rows sample_after_send ! 0) = Some ''Pending'' \<and>
   step (Response 0 Threw) sample_after_send = Some sample_record_error \<and>
   actionStatus (rows sample_record_error ! 0) = Some '' Error'' \<and>
   ekyc_status (rows sample_record_error ! 0) = Some ''Pending'' \<and>
   \<not> enabled (recordBtn (rows sample_record_error ! 0)) \<and>
   \<not> enabled (verifyBtn (rows sample_record_error ! 0)) \<and>
   step (Response 0 (Parsed sample_refused)) sample_after_send = Some sample_record_failed \<and>
   actionStatus (rows sample_record_failed ! 0) = Some '' Failed'' \<and>
   ekyc_status (rows sample_record_failed ! 0) = Some ''Pending'' \<and>
   \<not> enabled (recordBtn (rows sample_record_failed ! 0)) \<and>
   \<not> enabled (verifyBtn (rows sample_record_failed ! 0))"
proof -
  have len: "0 < length (fetches sample_after_send)"
    and task: "fetches sample_after_send ! 0 = RecordResp 0"
    and before: "ekyc_status (rows sample_after_send ! 0) = Some ''Pending''"
      "actionStatus (rows sample_after_send ! 0) = Some '' Recording...''"
    by (simp_all add: sample_after_send_eq sample_rows_def)
  have no: "\<not> data_success sample_refused"
    by (simp add: data_success_def sample_refused_def)
  have "Threw = Threw \<or> (\<exists>d. Threw = Parsed d \<and> \<not> data_success d)" by simp
  from record_failure [OF sample_init sample_run_send len task this]
  have err: "actionStatus (rows sample_record_error ! 0) = Some '' Error'' \<and>
      ekyc_status (rows sample_record_error ! 0) = Some ''Pending'' \<and>
      \<not> enabled (recordBtn (rows sample_record_error ! 0)) \<and>
      \<not> enabled (verifyBtn (rows sample_record_error ! 0))"
    using sample_step_error before by auto
  from no have "Parsed sample_refused = Threw \<or>
      (\<exists>d. Parsed sample_refused = Parsed d \<and> \<not> data_success d)" by simp
  from record_failure [OF sample_init sample_run_send len task this]
  have failed: "actionStatus (rows sample_record_failed ! 0) = Some '' Failed'' \<and>
      ekyc_status (rows sample_record_failed ! 0) = Some ''Pending'' \<and>
      \<not> enabled (recordBtn (rows sample_record_failed ! 0)) \<and>
      \<not> enabled (verifyBtn (rows sample_record_failed ! 0))"
    using sample_step_failed before by auto
  from err failed show ?thesis
    using sample_init sample_run_send task no before sample_step_error sample_step_failed
    by simp
qed

subsection \<open>C4: a successful verify response\<close>

text \<open>
  C4, as stated: on a verify response with \<^verbatim>\<open>success\<close> truthy the status label is set to
  \<^verbatim>\<open>status_display\<close> if present, else \<^verbatim>\<open>status\<close> if present, else ``Verified''.
  As in the record handler, a \<^verbatim>\<open>status_display\<close> that is present and empty is passed
  over.
\<close>

theorem verify_blank_display_counterexample:
  "get_field sample_verified_blank ''status_display'' = Some (JStr []) \<and>
   data_success sample_verified_blank \<and>
   ekyc_status (rows sample_before_verified ! 0) = Some ''Recorded'' \<and>
   ekyc_status (rows (verify_done 0 (Parsed sample_verified_blank) sample_before_verified) ! 0)
     = Some ''VERIFIED''"
  by (simp add: sample_before_verified_eq sample_verified_blank_def data_success_def
      verify_done_def status_text_def js_or_def sample_rows_def Let_def split: sum.splits)

text \<open>
  C4, amended: on a verify response with \<^verbatim>\<open>success\<close> truthy the handler sets the status
  label of the row to \<^verbatim>\<open>status_display\<close> if that is truthy (present and not empty),
  else to \<^verbatim>\<open>status\<close> if that is truthy, else to ``Verified'', and leaves both buttons
  of the row disabled; when every row of the participants table has a status label
  element, the caption of the row is `` Verified''.
\<close>

theorem verify_success:
  assumes "DOMContentLoaded p = Some w0" and "run evs w0 = Some w"
    and "k < length (fetches w)" and "fetches w ! k = VerifyResp i" and "data_success d"
  shows "\<exists>w'. step (Response k (Parsed d)) w = Some w' \<and>
     ekyc_status (rows w' ! i) =
       map_option (\<lambda>_. if truthy (get_field d ''status_display'')
                        then to_textContent (get_field d ''status_display'')
                        else if truthy (get_field d ''status'')
                        then to_textContent (get_field d ''status'')
                        else ''Verified'') (ekyc_status (rows w ! i)) \<and>
     \<not> enabled (recordBtn (rows w' ! i)) \<and> \<not> enabled (verifyBtn (rows w' ! i)) \<and>
     ((\<forall>r \<in> set (table_rows w). ekyc_status r \<noteq> None) \<longrightarrow>
        actionStatus (rows w' ! i) = map_option (\<lambda>_. '' Verified'') (actionStatus (rows w ! i)))"
proof -
  let ?v = "w\<lparr>fetches := remove_nth k (fetches w)\<rparr>"
  let ?f = "\<lambda>r. r\<lparr> ekyc_status := map_option (\<lambda>_. status_text d ''Verified'') (ekyc_status r),
                    actionStatus := map_option (\<lambda>_. '' Verified'') (actionStatus r),
                    recordBtn := map_option (\<lambda>_. True) (recordBtn r),
                    verifyBtn := Some True \<rparr>"
  from assms(4) have row: "fetch_row (fetches w ! k) = i" by (simp add: fetch_row_def)
  from reachable_locked [OF assms(1-3) row] reachable_answer [OF assms(1-3), of "Parsed d"] assms(4)
  have lock: "row_locked w i"
    and st: "step (Response k (Parsed d)) w = Some (verify_done i (Parsed d) ?v)"
    by simp_all
  from lock have i: "i < length (rows w)" by (simp add: row_locked_def)
  have label: "ekyc_status (rows (verify_done i (Parsed d) ?v) ! i) =
      map_option (\<lambda>_. status_text d ''Verified'') (ekyc_status (rows w ! i))"
    using i assms(5) by (simp add: verify_done_def Let_def split: sum.splits)
  have locked: "row_locked (verify_done i (Parsed d) ?v) i"
    using i assms(5) by (intro row_locked_verify_success) simp_all
  have caption: "actionStatus (rows (verify_done i (Parsed d) ?v) ! i) =
      map_option (\<lambda>_. '' Verified'') (actionStatus (rows w ! i))"
    if all: "\<forall>r \<in> set (table_rows w). ekyc_status r \<noteq> None"
  proof -
    from all have "\<forall>r \<in> set (table_rows ?v). ekyc_status r \<noteq> None"
      by (simp add: table_rows_def)
    then have "\<forall>r \<in> set (table_rows (update_row i ?f ?v)). ekyc_status r \<noteq> None"
      by (rule table_rows_update_labels) (auto split: option.splits)
    then have "every_verified (table_rows (update_row i ?f ?v)) \<noteq> Inl TypeError"
      by (rule every_verified_no_throw)
    then obtain b where "every_verified (table_rows (update_row i ?f ?v)) = Inr b"
      by (cases "every_verified (table_rows (update_row i ?f ?v))") (auto intro: js_error.exhaust)
    then show ?thesis using i assms(5) by (simp add: verify_done_def Let_def)
  qed
  from label locked caption show ?thesis
    unfolding st by (simp add: status_text_cases row_locked_def)
qed

theorem verify_success_witness:
  "DOMContentLoaded sample_page = Some sample_widget \<and>
   run [ClickRecord 0, Timeout 0, Response 0 (Parsed sample_recorded), ClickVerify 0, Timeout 0]
     sample_widget = Some sample_before_verified \<and>
   fetches sample_before_verified ! 0 = VerifyResp 0 \<and> data_success sample_verified \<and>
   list_all (\<lambda>r. ekyc_status r \<noteq> None) (table_rows sample_before_verified) \<and>
   step (Response 0 (Parsed sample_verified)) sample_before_verified = Some sample_after_verified \<and>
   ekyc_status (rows sample_after_verified ! 0) = Some ''VERIFIED'' \<and>
   actionStatus (rows sample_after_verified ! 0) = Some '' Verified'' \<and>
   \<not> enabled (recordBtn (rows sample_after_verified ! 0)) \<and>
   \<not> enabled (verifyBtn (rows sample_after_verified ! 0))"
proof -
  have len: "0 < length (fetches sample_before_verified)"
    and task: "fetches sample_before_verified ! 0 = VerifyResp 0"
    and labels: "list_all (\<lambda>r. ekyc_status r \<noteq> None) (table_rows sample_before_verified)"
    and before: "ekyc_status (rows sample_before_verified ! 0) = Some ''Recorded''"
      "actionStatus (rows sample_before_verified ! 0) = Some '' Verifying...''"
    by (simp_all add: sample_before_verified_eq table_rows_def sample_rows_def)
  have ok: "data_success sample_verified"
    and flds: "get_field sample_verified ''status_display'' = None"
      "get_field sample_verified ''status'' = Some (JStr ''VERIFIED'')"
    by (simp_all add: data_success_def sample_verified_def)
  from labels have all: "\<forall>r \<in> set (table_rows sample_before_verified). ekyc_status r \<noteq> None"
    by (simp add: list_all_iff)
  from verify_success [OF sample_init sample_run_before_verified len task ok]
  have "ekyc_status (rows sample_after_verified ! 0) = Some ''VERIFIED'' \<and>
      actionStatus (rows sample_after_verified ! 0) = Some '' Verified'' \<and>
      \<not> enabled (recordBtn (rows sample_after_verified ! 0)) \<and>
      \<not> enabled (verifyBtn (rows sample_after_verified ! 0))"
    using sample_step_verified before all flds by auto
  then show ?thesis
    using sample_init sample_run_before_verified task ok labels sample_step_verified by simp
qed

subsection \<open>C5: the done message and the reload\<close>

text \<open>
  C5: after a verify action succeeds, the done message is made visible and a reload of
  the page is scheduled after 900 ms if and only if every row of the participants table
  has a status label whose trimmed, lower-cased text equals ``verified''. Here \<open>w'\<close>
  is the state the success branch ends in; the scan reads the labels as they are then
  (the label of the clicked row is written before the scan, and nothing writes a label
  after it). The timer is added exactly when all rows read ``verified'', and so is the
  write to the done message (which happens when the page has that element).
\<close>

theorem done_message_iff_all_verified:
  assumes "data_success d" and "w' = verify_done i (Parsed d) w"
  shows "timers w' =
           timers w @ (if (\<forall>r \<in> set (table_rows w'). reads_verified r) then [(900, Reload)] else []) \<and>
         doneMsg w' =
           (if (\<forall>r \<in> set (table_rows w'). reads_verified r)
            then map_option (\<lambda>_. ''block'') (doneMsg w) else doneMsg w)"
proof -
  let ?w1 = "update_row i
              (\<lambda>r. r\<lparr> ekyc_status := map_option (\<lambda>_. status_text d ''Verified'') (ekyc_status r),
                       actionStatus := map_option (\<lambda>_. '' Verified'') (actionStatus r),
                       recordBtn := map_option (\<lambda>_. True) (recordBtn r),
                       verifyBtn := Some True \<rparr>) w"
  have all: "(\<forall>r \<in> set (table_rows w'). reads_verified r) \<longleftrightarrow>
      every_verified (table_rows ?w1) = Inr True"
    unfolding assms(2) by (simp flip: every_verified_True_iff add: verify_done_scan [OF assms(1)])
  show ?thesis
  proof (cases "every_verified (table_rows ?w1)")
    case (Inl e)
    with all show ?thesis unfolding assms(2) by (simp add: verify_done_success [OF assms(1)])
  next
    case (Inr b)
    with all show ?thesis unfolding assms(2) by (simp add: verify_done_success [OF assms(1)])
  qed
qed

theorem done_message_iff_all_verified_witness:
  "data_success sample_verified \<and>
   list_all reads_verified (table_rows (verify_done 0 (Parsed sample_verified) sample_before_verified)) \<and>
   timers (verify_done 0 (Parsed sample_verified) sample_before_verified) = [(900, Reload)] \<and>
   doneMsg (verify_done 0 (Parsed sample_verified) sample_before_verified) = Some ''block'' \<and>
   data_success sample_held \<and>
   \<not> list_all reads_verified (table_rows (verify_done 0 (Parsed sample_held) sample_before_verified)) \<and>
   timers (verify_done 0 (Parsed sample_held) sample_before_verified) = [] \<and>
   doneMsg (verify_done 0 (Parsed sample_held) sample_before_verified) = Some ''none''"
proof -
  have ok: "data_success sample_verified" "data_success sample_held"
    by (simp_all add: data_success_def sample_verified_def sample_held_def)
  have before: "timers sample_before_verified = []" "doneMsg sample_before_verified = Some ''none''"
    by (simp_all add: sample_before_verified_eq sample_widget_def)
  have yes: "list_all reads_verified
      (table_rows (verify_done 0 (Parsed sample_verified) sample_before_verified))"
    by (simp add: table_rows_def sample_verified_rows sample_rows_def reads_verified_def sample_labels)
  have no: "\<not> list_all reads_verified
      (table_rows (verify_done 0 (Parsed sample_held) sample_before_verified))"
    by (simp add: table_rows_def sample_held_rows sample_rows_def reads_verified_def sample_labels2)
  from done_message_iff_all_verified [OF ok(1) refl, of 0 sample_before_verified] yes before
  have a: "timers (verify_done 0 (Parsed sample_verified) sample_before_verified) = [(900, Reload)] \<and>
      doneMsg (verify_done 0 (Parsed sample_verified) sample_before_verified) = Some ''block''"
    by (simp add: list_all_iff)
  from done_message_iff_all_verified [OF ok(2) refl, of 0 sample_before_verified] no before
  have b: "timers (verify_done 0 (Parsed sample_held) sample_before_verified) = [] \<and>
      doneMsg (verify_done 0 (Parsed sample_held) sample_before_verified) = Some ''none''"
    by (simp add: list_all_iff)
  from ok yes no a b show ?thesis by simp
qed

subsection \<open>C6: the endpoint\<close>

text \<open>
  C6, as stated: the endpoint is read from the \<^verbatim>\<open>data-endpoint\<close> attribute of the root
  element and falls back to the address of the page whenever the root element or the
  attribute is absent. The script tests the root element only: on a page whose
  \<^verbatim>\<open>#ekyc_root\<close> carries no \<^verbatim>\<open>data-endpoint\<close>, \<^verbatim>\<open>root.dataset.endpoint\<close> is
  \<^verbatim>\<open>undefined\<close>, and that is the endpoint, not the address of the page.
\<close>

theorem endpoint_no_attribute_counterexample:
  "map_option endpoint (DOMContentLoaded (sample_page\<lparr>ekyc_root := Some None\<rparr>)) = Some None \<and>
   map_option endpoint (DOMContentLoaded (sample_page\<lparr>ekyc_root := Some None\<rparr>))
     \<noteq> Some (Some (location_href sample_page))"
  by (simp add: DOMContentLoaded_def sample_page_def endpoint_of_def)

text \<open>
  C6, amended: at initialisation the endpoint is the \<^verbatim>\<open>data-endpoint\<close> attribute of the
  root element when the root element is there and carries the attribute, and the
  address of the page when the root element is absent.
\<close>

theorem endpoint_initialised:
  assumes "DOMContentLoaded p = Some w"
  shows "(ekyc_root p = None \<longrightarrow> endpoint w = Some (location_href p)) \<and>
         (\<forall>u. ekyc_root p = Some (Some u) \<longrightarrow> endpoint w = Some u)"
  using assms by (auto simp: DOMContentLoaded_def endpoint_of_def split: option.splits)

theorem endpoint_initialised_witness:
  "DOMContentLoaded sample_page = Some sample_widget \<and>
   ekyc_root sample_page = Some (Some ''/attendance/7/ekyc/'') \<and>
   endpoint sample_widget = Some ''/attendance/7/ekyc/'' \<and>
   DOMContentLoaded (sample_page\<lparr>ekyc_root := None\<rparr>)
     = Some (sample_widget\<lparr>ekyc_root := None, endpoint := Some ''https://tms.example/attendance/7/''\<rparr>) \<and>
   endpoint (sample_widget\<lparr>ekyc_root := None, endpoint := Some ''https://tms.example/attendance/7/''\<rparr>)
     = Some (location_href (sample_page\<lparr>ekyc_root := None\<rparr>))"
proof -
  have a: "DOMContentLoaded sample_page = Some sample_widget" by (rule sample_init)
  have b: "DOMContentLoaded (sample_page\<lparr>ekyc_root := None\<rparr>)
     = Some (sample_widget\<lparr>ekyc_root := None, endpoint := Some ''https://tms.example/attendance/7/''\<rparr>)"
    by (simp add: DOMContentLoaded_def sample_page_def sample_widget_def endpoint_of_def)
  have c: "ekyc_root sample_page = Some (Some ''/attendance/7/ekyc/'')"
    by (simp add: sample_page_def)
  from endpoint_initialised [OF a] c
  have "endpoint sample_widget = Some ''/attendance/7/ekyc/''" by simp
  moreover from endpoint_initialised [OF b]
  have "endpoint (sample_widget\<lparr>ekyc_root := None, endpoint := Some ''https://tms.example/attendance/7/''\<rparr>)
     = Some (location_href (sample_page\<lparr>ekyc_root := None\<rparr>))" by simp
  ultimately show ?thesis using a b c by simp
qed

subsection \<open>C7: the request of an action\<close>

text \<open>
  C7: every record and verify action issues a single POST to the configured endpoint
  whose form body carries exactly the fields \<^verbatim>\<open>action\<close> (\<^verbatim>\<open>record_fingerprint\<close> or
  \<^verbatim>\<open>verify_ekyc\<close>), \<^verbatim>\<open>participant_id\<close> and \<^verbatim>\<open>participant_role\<close> from the data
  attributes of the row, with the header \<^verbatim>\<open>X-Requested-With\<close> and a header
  \<^verbatim>\<open>X-CSRFToken\<close> whose value is the \<^verbatim>\<open>csrftoken\<close> cookie, or the empty string when
  there is no such cookie.

  An action is the click, the end of the 1500 ms wait and the answer, whatever the
  answer is. From its start to its end the list of requests grows by exactly one entry.
  The body is the list of \<^verbatim>\<open>FormData\<close> entries; \<^verbatim>\<open>FormData\<close> turns a missing data
  attribute into the text \<^verbatim>\<open>undefined\<close>. The cookie string is that of a cookie jar with
  distinct names.
\<close>

theorem action_posts_once:
  assumes "\<not> reloaded w" and "i < length (rows w)"
    and "cookie w = document_cookie jar" and "jar_ok jar" and "distinct (map fst jar)"
  shows "(enabled (recordBtn (rows w ! i)) \<longrightarrow>
           (\<exists>w'. run [ClickRecord i, Timeout (length (timers w)), Response (length (fetches w)) out] w
                    = Some w' \<and>
                 requests w' = requests w @
                   [\<lparr> url = endpoint w, http_method = ''POST'',
                      headers = [(''X-Requested-With'', ''XMLHttpRequest''),
                                 (''X-CSRFToken'',
                                  case map_of jar ''csrftoken'' of None \<Rightarrow> [] | Some v \<Rightarrow> v)],
                      body = [(''action'', ''record_fingerprint''),
                              (''participant_id'', formdata_value (participantId (rows w ! i))),
                              (''participant_role'', formdata_value (participantRole (rows w ! i)))] \<rparr>])) \<and>
         (enabled (verifyBtn (rows w ! i)) \<longrightarrow>
           (\<exists>w'. run [ClickVerify i, Timeout (length (timers w)), Response (length (fetches w)) out] w
                    = Some w' \<and>
                 requests w' = requests w @
                   [\<lparr> url = endpoint w, http_method = ''POST'',
                      headers = [(''X-Requested-With'', ''XMLHttpRequest''),
                                 (''X-CSRFToken'',
                                  case map_of jar ''csrftoken'' of None \<Rightarrow> [] | Some v \<Rightarrow> v)],
                      body = [(''action'', ''verify_ekyc''),
                              (''participant_id'', formdata_value (participantId (rows w ! i))),
                              (''participant_role'', formdata_value (participantRole (rows w ! i)))] \<rparr>]))"
  using record_action_run [OF assms(1,2), of out] verify_action_run [OF assms(1,2), of out]
  unfolding post_request_jar [OF assms(3-5)] by blast

theorem action_posts_once_witness:
  "cookie sample_widget = document_cookie sample_jar \<and> jar_ok sample_jar \<and>
   distinct (map fst sample_jar) \<and>
   enabled (recordBtn (rows sample_widget ! 0)) \<and>
   run [ClickRecord 0, Timeout 0, Response 0 (Parsed sample_recorded)] sample_widget
     = Some sample_after_record \<and>
   requests sample_after_record =
     [\<lparr> url = Some ''/attendance/7/ekyc/'', http_method = ''POST'',
        headers = [(''X-Requested-With'', ''XMLHttpRequest''), (''X-CSRFToken'', ''tok123'')],
        body = [(''action'', ''record_fingerprint''), (''participant_id'', ''42''),
                (''participant_role'', ''trainee'')] \<rparr>] \<and>
   enabled (verifyBtn (rows sample_after_record ! 0)) \<and>
   run [ClickVerify 0, Timeout 0, Response 0 (Parsed sample_verified)] sample_after_record
     = Some sample_after_verified \<and>
   requests sample_after_verified =
     requests sample_after_record @
     [\<lparr> url = Some ''/attendance/7/ekyc/'', http_method = ''POST'',
        headers = [(''X-Requested-With'', ''XMLHttpRequest''), (''X-CSRFToken'', ''tok123'')],
        body = [(''action'', ''verify_ekyc''), (''participant_id'', ''42''),
                (''participant_role'', ''trainee'')] \<rparr>]"
proof -
  have w: "\<not> reloaded sample_widget" "0 < length (rows sample_widget)"
    "enabled (recordBtn (rows sample_widget ! 0))"
    "timers sample_widget = []" "fetches sample_widget = []" "requests sample_widget = []"
    "endpoint sample_widget = Some ''/attendance/7/ekyc/''"
    "participantId (rows sample_widget ! 0) = Some ''42''"
    "participantRole (rows sample_widget ! 0) = Some ''trainee''"
    by (simp_all add: sample_widget_def sample_rows_def enabled_def)
  have v: "\<not> reloaded sample_after_record" "0 < length (rows sample_after_record)"
    "enabled (verifyBtn (rows sample_after_record ! 0))"
    "timers sample_after_record = []" "fetches sample_after_record = []"
    "endpoint sample_after_record = Some ''/attendance/7/ekyc/''"
    "participantId (rows sample_after_record ! 0) = Some ''42''"
    "participantRole (rows sample_after_record ! 0) = Some ''trainee''"
    "cookie sample_after_record = document_cookie sample_jar"
    by (simp_all add: sample_after_record_eq sample_widget_def sample_rows_def enabled_def
        sample_jar_def)
  have tok: "(case map_of sample_jar ''csrftoken'' of None \<Rightarrow> [] | Some v \<Rightarrow> v) = ''tok123''"
    by (simp add: sample_jar_def)
  from action_posts_once [OF w(1,2) sample_jar_ok, of "Parsed sample_recorded"] w(3)
  obtain w' where "run [ClickRecord 0, Timeout (length (timers sample_widget)),
        Response (length (fetches sample_widget)) (Parsed sample_recorded)] sample_widget = Some w'"
    and "requests w' = requests sample_widget @
       [\<lparr> url = endpoint sample_widget, http_method = ''POST'',
          headers = [(''X-Requested-With'', ''XMLHttpRequest''),
                     (''X-CSRFToken'',
                      case map_of sample_jar ''csrftoken'' of None \<Rightarrow> [] | Some v \<Rightarrow> v)],
          body = [(''action'', ''record_fingerprint''),
                  (''participant_id'', formdata_value (participantId (rows sample_widget ! 0))),
                  (''participant_role'', formdata_value (participantRole (rows sample_widget ! 0)))] \<rparr>]"
    by blast
  with sample_run_record w tok
  have a: "requests sample_after_record =
     [\<lparr> url = Some ''/attendance/7/ekyc/'', http_method = ''POST'',
        headers = [(''X-Requested-With'', ''XMLHttpRequest''), (''X-CSRFToken'', ''tok123'')],
        body = [(''action'', ''record_fingerprint''), (''participant_id'', ''42''),
                (''participant_role'', ''trainee'')] \<rparr>]"
    by (simp add: formdata_value_def)
  from action_posts_once [OF v(1,2) v(9) sample_jar_ok(2,3), of "Parsed sample_verified"] v(3)
  obtain w'' where "run [ClickVerify 0, Timeout (length (timers sample_after_record)),
        Response (length (fetches sample_after_record)) (Parsed sample_verified)] sample_after_record = Some w''"
    and "requests w'' = requests sample_after_record @
       [\<lparr> url = endpoint sample_after_record, http_method = ''POST'',
          headers = [(''X-Requested-With'', ''XMLHttpRequest''),
                     (''X-CSRFToken'',
                      case map_of sample_jar ''csrftoken'' of None \<Rightarrow> [] | Some v \<Rightarrow> v)],
          body = [(''action'', ''verify_ekyc''),
                  (''participant_id'', formdata_value (participantId (rows sample_after_record ! 0))),
                  (''participant_role'', formdata_value (participantRole (rows sample_after_record ! 0)))] \<rparr>]"
    by blast
  with sample_run_verified v tok
  have b: "requests sample_after_verified =
     requests sample_after_record @
     [\<lparr> url = Some ''/attendance/7/ekyc/'', http_method = ''POST'',
        headers = [(''X-Requested-With'', ''XMLHttpRequest''), (''X-CSRFToken'', ''tok123'')],
        body = [(''action'', ''verify_ekyc''), (''participant_id'', ''42''),
                (''participant_role'', ''trainee'')] \<rparr>]"
    by (simp add: formdata_value_def)
  from a b sample_jar_ok w(3) v(3) sample_run_record sample_run_verified
  show ?thesis by (simp only: simp_thms)
qed

subsection \<open>C8: the connection test\<close>

text \<open>
  C8: a click on the test-connection button disables it at once, sets the status text to
  ``Testing...'' and shows the loading indicator; after a fixed delay of 2000 ms and
  without any network call, the callback hides the loader, sets the status text to
  ``Connection succeeded!'', reveals the participants container and moves the focus to
  the first enabled record button, if there is one. The operation has no failure
  outcome: the callback is a step, whatever the state. (A write goes to an element only
  when the page has it.)
\<close>

theorem test_connection:
  assumes "step ClickTest w = Some w1"
  shows "testBtn w1 = Some True \<and>
         testStatus w1 = map_option (\<lambda>_. ''Testing...'') (testStatus w) \<and>
         loader w1 = map_option (\<lambda>_. ''block'') (loader w) \<and>
         participantsWrapper w1 = participantsWrapper w \<and>
         timers w1 = timers w @ [(2000, TestDone)] \<and>
         requests w1 = requests w \<and> fetches w1 = fetches w \<and>
         (\<exists>w2. step (Timeout (length (timers w))) w1 = Some w2 \<and>
            loader w2 = map_option (\<lambda>_. ''none'') (loader w) \<and>
            testStatus w2 = map_option (\<lambda>_. ''Connection succeeded!'') (testStatus w) \<and>
            participantsWrapper w2 = map_option (\<lambda>_. ''block'') (participantsWrapper w) \<and>
            requests w2 = requests w \<and> fetches w2 = fetches w \<and> timers w2 = timers w \<and>
            (\<forall>j. j < length (rows w) \<and> enabled (recordBtn (rows w ! j)) \<and>
                 (\<forall>j' < j. \<not> enabled (recordBtn (rows w ! j'))) \<longrightarrow> focused w2 = Some j) \<and>
            ((\<forall>j < length (rows w). \<not> enabled (recordBtn (rows w ! j))) \<longrightarrow>
               focused w2 = focused w))"
proof -
  from assms have live: "\<not> reloaded w" and w1: "w1 = testBtn_click w"
    by (auto simp: step_def split: if_splits)
  let ?w2 = "testBtn_timeout (w1\<lparr>timers := timers w\<rparr>)"
  have st: "step (Timeout (length (timers w))) w1 = Some ?w2"
    using live by (simp add: w1 step_def testBtn_click_def)
  have foc: "focused ?w2 = Some j"
    if "j < length (rows w) \<and> enabled (recordBtn (rows w ! j)) \<and>
        (\<forall>j' < j. \<not> enabled (recordBtn (rows w ! j')))" for j
    using first_enabled_record_least [of j "rows w"] that
    by (simp add: testBtn_timeout_def w1 testBtn_click_def)
  have nofoc: "focused ?w2 = focused w"
    if "\<forall>j < length (rows w). \<not> enabled (recordBtn (rows w ! j))"
  proof (cases "first_enabled_record (rows w)")
    case None
    then show ?thesis by (simp add: testBtn_timeout_def w1 testBtn_click_def)
  next
    case (Some j)
    with first_enabled_record_Some [OF Some] that show ?thesis by blast
  qed
  have rest: "loader ?w2 = map_option (\<lambda>_. ''none'') (loader w) \<and>
      testStatus ?w2 = map_option (\<lambda>_. ''Connection succeeded!'') (testStatus w) \<and>
      participantsWrapper ?w2 = map_option (\<lambda>_. ''block'') (participantsWrapper w) \<and>
      requests ?w2 = requests w \<and> fetches ?w2 = fetches w \<and> timers ?w2 = timers w"
    by (cases "loader w"; cases "testStatus w")
       (simp_all add: testBtn_timeout_def w1 testBtn_click_def)
  have first: "testBtn w1 = Some True \<and>
         testStatus w1 = map_option (\<lambda>_. ''Testing...'') (testStatus w) \<and>
         loader w1 = map_option (\<lambda>_. ''block'') (loader w) \<and>
         participantsWrapper w1 = participantsWrapper w \<and>
         timers w1 = timers w @ [(2000, TestDone)] \<and>
         requests w1 = requests w \<and> fetches w1 = fetches w"
    by (simp add: w1 testBtn_click_def)
  from first st rest foc nofoc show ?thesis by blast
qed

theorem test_connection_witness:
  "step ClickTest sample_widget = Some (testBtn_click sample_widget) \<and>
   testBtn (testBtn_click sample_widget) = Some True \<and>
   testStatus (testBtn_click sample_widget) = Some ''Testing...'' \<and>
   loader (testBtn_click sample_widget) = Some ''block'' \<and>
   timers (testBtn_click sample_widget) = [(2000, TestDone)] \<and>
   requests (testBtn_click sample_widget) = [] \<and>
   step (Timeout 0) (testBtn_click sample_widget) = Some sample_tested \<and>
   loader sample_tested = Some ''none'' \<and>
   testStatus sample_tested = Some ''Connection succeeded!'' \<and>
   participantsWrapper sample_tested = Some ''block'' \<and>
   requests sample_tested = [] \<and> fetches sample_tested = [] \<and>
   enabled (recordBtn (rows sample_widget ! 0)) \<and>
   focused sample_tested = Some 0"
proof -
  have w: "timers sample_widget = []" "requests sample_widget = []" "fetches sample_widget = []"
    "testStatus sample_widget = Some []" "loader sample_widget = Some ''none''"
    "participantsWrapper sample_widget = Some ''none''"
    "0 < length (rows sample_widget)" "enabled (recordBtn (rows sample_widget ! 0))"
    by (simp_all add: sample_widget_def sample_rows_def enabled_def)
  from test_connection [OF sample_click_test] w sample_tested_eq
  have first: "testBtn (testBtn_click sample_widget) = Some True \<and>
      testStatus (testBtn_click sample_widget) = Some ''Testing...'' \<and>
      loader (testBtn_click sample_widget) = Some ''block'' \<and>
      timers (testBtn_click sample_widget) = [(2000, TestDone)] \<and>
      requests (testBtn_click sample_widget) = []"
    and second: "loader sample_tested = Some ''none'' \<and>
      testStatus sample_tested = Some ''Connection succeeded!'' \<and>
      participantsWrapper sample_tested = Some ''block'' \<and>
      requests sample_tested = [] \<and> fetches sample_tested = []"
    and foc: "\<forall>j. j < length (rows sample_widget) \<and> enabled (recordBtn (rows sample_widget ! j)) \<and>
        (\<forall>j' < j. \<not> enabled (recordBtn (rows sample_widget ! j'))) \<longrightarrow>
        focused sample_tested = Some j"
    by auto
  from foc w(7,8) have "focused sample_tested = Some 0" by simp
  with first second w(8) sample_click_test sample_tested_eq show ?thesis by simp
qed

subsection \<open>C9: no second action on one button while the first is pending\<close>

text \<open>
  C9: a second click on a record or verify button can never start a second action
  while the first one is pending, because the handler disables the clicked button
  before it reaches its first \<^verbatim>\<open>await\<close>. In every state the widget reaches from
  a freshly initialised page, a row has at most one action in flight; while a record
  (verify) action of row \<open>i\<close> is pending, the record (verify) button of that row
  is disabled and a click on it is not a step; and the step of a click leaves the
  clicked button disabled and the action pending.
\<close>

theorem no_second_click_while_pending:
  assumes "DOMContentLoaded p = Some w0" and "run evs w0 = Some w"
  shows "in_flight w i \<le> 1 \<and>
    (record_pending w i \<longrightarrow>
       \<not> enabled (recordBtn (rows w ! i)) \<and> step (ClickRecord i) w = None) \<and>
    (verify_pending w i \<longrightarrow>
       \<not> enabled (verifyBtn (rows w ! i)) \<and> step (ClickVerify i) w = None) \<and>
    (\<forall>w'. step (ClickRecord i) w = Some w' \<longrightarrow>
       recordBtn (rows w' ! i) = Some True \<and> record_pending w' i) \<and>
    (\<forall>w'. step (ClickVerify i) w = Some w' \<longrightarrow>
       verifyBtn (rows w' ! i) = Some True \<and> verify_pending w' i)"
proof -
  from assms have inv: "widget_inv w" by (rule reachable_inv)
  then have one: "in_flight w i \<le> 1" and lock: "0 < in_flight w i \<Longrightarrow> row_locked w i"
    by (simp_all add: widget_inv_def)
  have rec: "\<not> enabled (recordBtn (rows w ! i)) \<and> step (ClickRecord i) w = None"
    if "record_pending w i"
    using lock [OF record_pending_in_flight [OF that]]
    by (simp add: row_locked_def step_def)
  have ver: "\<not> enabled (verifyBtn (rows w ! i)) \<and> step (ClickVerify i) w = None"
    if "verify_pending w i"
    using lock [OF verify_pending_in_flight [OF that]]
    by (simp add: row_locked_def step_def)
  have rc: "recordBtn (rows w' ! i) = Some True \<and> record_pending w' i"
    if "step (ClickRecord i) w = Some w'" for w'
    using that record_click_pending [of i w] by (auto simp: step_def split: if_splits)
  have vc: "verifyBtn (rows w' ! i) = Some True \<and> verify_pending w' i"
    if "step (ClickVerify i) w = Some w'" for w'
    using that verify_click_pending [of i w] by (auto simp: step_def split: if_splits)
  from one rec ver rc vc show ?thesis by blast
qed

theorem no_second_click_while_pending_witness:
  "DOMContentLoaded sample_page = Some sample_widget \<and>
   run [ClickRecord 0] sample_widget = Some (record_click 0 sample_widget) \<and>
   record_pending (record_click 0 sample_widget) 0 \<and>
   step (ClickRecord 0) (record_click 0 sample_widget) = None \<and>
   in_flight (record_click 0 sample_widget) 0 = 1"
proof -
  have pend: "record_pending (record_click 0 sample_widget) 0"
    by (simp add: record_pending_def record_click_def Let_def is_record_timer_def)
  have one: "in_flight (record_click 0 sample_widget) 0 = 1"
    by (simp add: in_flight_def record_click_def Let_def timer_row_def sample_widget_def)
  from no_second_click_while_pending [OF sample_init sample_record_click, of 0] pend
  have "step (ClickRecord 0) (record_click 0 sample_widget) = None" by blast
  with pend one sample_init sample_record_click show ?thesis by simp
qed

subsection \<open>C10: a row without a status label\<close>

text \<open>
  C10: in the success branch of the verify handler the scan of the table dereferences
  the status label of each row it visits without a null check. When the scan comes to
  a table row that has no \<^verbatim>\<open>.ekyc-status\<close> element (row \<open>n\<close> of the table, every
  row before it reading ``verified'', since the scan stops at the first row that does
  not), it throws; the \<^verbatim>\<open>catch\<close> clause overwrites the caption of the clicked row
  with `` Error'', although the verify succeeded and the status label and the buttons of
  that row are already updated. No done message is shown and no reload is scheduled.
  The table rows are those of \<open>w'\<close>, the state the handler ends in: their labels are
  the ones the scan read.
\<close>

theorem verify_scan_throws:
  assumes "data_success d" and "i < length (rows w)" and "w' = verify_done i (Parsed d) w"
    and "n < length (table_rows w')" and "ekyc_status (table_rows w' ! n) = None"
    and "\<forall>m < n. reads_verified (table_rows w' ! m)"
  shows "actionStatus (rows w' ! i) = map_option (\<lambda>_. '' Error'') (actionStatus (rows w ! i)) \<and>
         ekyc_status (rows w' ! i) =
           map_option (\<lambda>_. status_text d ''Verified'') (ekyc_status (rows w ! i)) \<and>
         recordBtn (rows w' ! i) = map_option (\<lambda>_. True) (recordBtn (rows w ! i)) \<and>
         verifyBtn (rows w' ! i) = Some True \<and>
         doneMsg w' = doneMsg w \<and> timers w' = timers w"
proof -
  from assms(4-6) have "every_verified (table_rows w') = Inl TypeError"
    unfolding every_verified_throws_iff by blast
  then have "every_verified (table_rows (update_row i
              (\<lambda>r. r\<lparr> ekyc_status := map_option (\<lambda>_. status_text d ''Verified'') (ekyc_status r),
                       actionStatus := map_option (\<lambda>_. '' Verified'') (actionStatus r),
                       recordBtn := map_option (\<lambda>_. True) (recordBtn r),
                       verifyBtn := Some True \<rparr>) w)) = Inl TypeError"
    unfolding assms(3) by (simp add: verify_done_scan [OF assms(1)])
  then show ?thesis
    unfolding assms(3) using assms(2)
    by (cases "actionStatus (rows w ! i)") (simp_all add: verify_done_success [OF assms(1)])
qed

theorem verify_scan_throws_witness:
  "data_success sample_verified \<and>
   length (table_rows (verify_done 0 (Parsed sample_verified) sample_unlabelled)) = 3 \<and>
   ekyc_status (table_rows (verify_done 0 (Parsed sample_verified) sample_unlabelled) ! 2) = None \<and>
   reads_verified (table_rows (verify_done 0 (Parsed sample_verified) sample_unlabelled) ! 0) \<and>
   reads_verified (table_rows (verify_done 0 (Parsed sample_verified) sample_unlabelled) ! 1) \<and>
   actionStatus (rows sample_unlabelled ! 0) = Some '' Verifying...'' \<and>
   actionStatus (rows (verify_done 0 (Parsed sample_verified) sample_unlabelled) ! 0) = Some '' Error'' \<and>
   ekyc_status (rows (verify_done 0 (Parsed sample_verified) sample_unlabelled) ! 0) = Some ''VERIFIED'' \<and>
   doneMsg (verify_done 0 (Parsed sample_verified) sample_unlabelled) = Some ''none'' \<and>
   timers (verify_done 0 (Parsed sample_verified) sample_unlabelled) = []"
proof -
  let ?w' = "verify_done 0 (Parsed sample_verified) sample_unlabelled"
  have ok: "data_success sample_verified"
    and txt1: "status_text sample_verified ''Verified'' = ''VERIFIED''"
    by (simp_all add: data_success_def sample_verified_def status_text_def js_or_def)
  have tab: "table_rows ?w' = rows ?w'"
    by (simp add: table_rows_def sample_unlabelled_rows sample_rows_def)
  have len: "2 < length (table_rows ?w')" "length (table_rows ?w') = 3"
    and none: "ekyc_status (table_rows ?w' ! 2) = None"
    and r0: "reads_verified (table_rows ?w' ! 0)"
    and r1: "reads_verified (table_rows ?w' ! 1)"
    unfolding tab
    by (simp_all add: sample_unlabelled_rows sample_rows_def reads_verified_def sample_labels)
  from r0 r1 have all: "\<forall>m < 2. reads_verified (table_rows ?w' ! m)"
    by (auto simp: less_2_cases_iff)
  have before: "actionStatus (rows sample_unlabelled ! 0) = Some '' Verifying...''"
    "ekyc_status (rows sample_unlabelled ! 0) = Some ''Recorded''"
    "doneMsg sample_unlabelled = Some ''none''" "timers sample_unlabelled = []"
    "0 < length (rows sample_unlabelled)"
    by (simp_all add: sample_unlabelled_def sample_before_verified_eq sample_widget_def sample_rows_def)
  from verify_scan_throws [OF ok before(5) refl len(1) none all] before txt1
  have "actionStatus (rows ?w' ! 0) = Some '' Error'' \<and>
      ekyc_status (rows ?w' ! 0) = Some ''VERIFIED'' \<and>
      doneMsg ?w' = Some ''none'' \<and> timers ?w' = []"
    by simp
  with ok len none r0 r1 before show ?thesis by simp
qed

end
